theory Spec2Isabelle
  imports Main "HOL-Library.Word" "HOL-Library.Char_ord" "HOL-Library.List_Lexorder"
begin

section \<open>Errors\<close>

text \<open>
  What a call can do instead of returning. \<open>OutOfRange\<close> and \<open>LengthError\<close> are the
  C++ exceptions \<open>std::out_of_range\<close> (thrown by \<open>substr\<close> when the start position lies
  beyond the end of the string) and \<open>std::length_error\<close> (thrown by the fill constructor
  of \<open>std::string\<close> for a count above \<open>max_size()\<close>); a \<open>catch (...)\<close> handles both.
  \<open>Undefined\<close> stands for undefined behaviour, which no handler catches: \<open>operator[]\<close>
  of a vector beyond its size and \<open>end() - 1\<close> of an empty vector.
\<close>

datatype error = OutOfRange | LengthError | Undefined

section \<open>The size type and the string operations of the standard library\<close>

text \<open>
  \<open>size_t\<close> is an unsigned 64-bit integer: a natural number below \<open>2 ^ 64\<close>, with the
  wrap-around of \<open>+\<close> and \<open>-\<close> written out. \<open>npos\<close> is its largest value.
\<close>

definition npos :: nat where
  "npos = 18446744073709551615"

definition sz_add :: "nat \<Rightarrow> nat \<Rightarrow> nat" where
  "sz_add a b = (a + b) mod 18446744073709551616"

definition sz_sub :: "nat \<Rightarrow> nat \<Rightarrow> nat" where
  "sz_sub a b = (a + 18446744073709551616 - b) mod 18446744073709551616"

text \<open>The position of the first element with property \<open>P\<close>, counted from the head.\<close>

primrec index_of :: "('a \<Rightarrow> bool) \<Rightarrow> 'a list \<Rightarrow> nat option" where
  "index_of P [] = None"
| "index_of P (x # xs) = (if P x then Some 0 else map_option Suc (index_of P xs))"

text \<open>
  The searches of \<open>std::string\<close>, all starting at position \<open>pos\<close>: the position of the
  first character that satisfies \<open>P\<close>, or \<open>npos\<close>. A \<open>std::string\<close> holds fewer than
  \<open>npos\<close> characters, so a position that a search reports is below \<open>npos\<close>.
\<close>

definition find_if_from :: "string \<Rightarrow> (char \<Rightarrow> bool) \<Rightarrow> nat \<Rightarrow> nat" where
  "find_if_from s P pos =
     (case index_of P (drop pos s) of
        None \<Rightarrow> npos
      | Some i \<Rightarrow> if pos + i < npos then pos + i else npos)"

definition str_find :: "string \<Rightarrow> char \<Rightarrow> nat \<Rightarrow> nat" where
  "str_find s c pos = find_if_from s (\<lambda>x. x = c) pos"

definition find_first_of :: "string \<Rightarrow> string \<Rightarrow> nat \<Rightarrow> nat" where
  "find_first_of s delimiters pos = find_if_from s (\<lambda>x. x \<in> set delimiters) pos"

definition find_first_not_of :: "string \<Rightarrow> string \<Rightarrow> nat \<Rightarrow> nat" where
  "find_first_not_of s delimiters pos = find_if_from s (\<lambda>x. x \<notin> set delimiters) pos"

text \<open>
  \<open>s.substr(pos, n)\<close> throws \<open>std::out_of_range\<close> when \<open>pos > s.size()\<close> and otherwise
  returns the characters from \<open>pos\<close> on, at most \<open>n\<close> of them.
\<close>

definition substr :: "string \<Rightarrow> nat \<Rightarrow> nat \<Rightarrow> error + string" where
  "substr s pos n = (if length s < pos then Inl OutOfRange else Inr (take n (drop pos s)))"

text \<open>
  \<open>std::string(n, ch)\<close> throws \<open>std::length_error\<close> above \<open>max_size()\<close>. The bound is a
  constant of the standard library (here the one of libstdc++ on a 64-bit target).
\<close>

definition string_max_size :: nat where
  "string_max_size = 4611686018427387903"

definition string_fill :: "nat \<Rightarrow> char \<Rightarrow> error + string" where
  "string_fill n ch = (if string_max_size < n then Inl LengthError else Inr (replicate n ch))"

text \<open>
  \<open>atoi\<close> is \<open>(int) strtol(s, nullptr, 10)\<close>: white space is skipped, then an optional
  sign, then decimal digits up to the first other character (the terminating NUL of
  \<open>c_str()\<close> is one). No digits give 0. \<open>strtol\<close> stops at the bounds of \<open>long\<close>, and the
  conversion to \<open>int\<close> keeps the low 32 bits; \<open>atoi\<close> never fails.
\<close>

definition isspace :: "char \<Rightarrow> bool" where
  "isspace c = (c \<in> set [CHR '' '', CHR 0x09, CHR 0x0A, CHR 0x0B, CHR 0x0C, CHR 0x0D])"

definition isdigit :: "char \<Rightarrow> bool" where
  "isdigit c = (c \<in> set ''0123456789'')"

definition digit_value :: "char \<Rightarrow> int" where
  "digit_value c = int (of_char c) - 48"

definition digits_value :: "string \<Rightarrow> int" where
  "digits_value ds = foldl (\<lambda>acc d. 10 * acc + digit_value d) 0 ds"

definition strtol :: "string \<Rightarrow> int" where
  "strtol s =
     (let t = dropWhile isspace s;
          (neg, u) = (case t of
                        [] \<Rightarrow> (False, [])
                      | c # r \<Rightarrow> if c = CHR ''-'' then (True, r)
                                 else if c = CHR ''+'' then (False, r) else (False, t));
          v = digits_value (takeWhile isdigit u);
          r = (if neg then - v else v)
      in max (- 9223372036854775808) (min 9223372036854775807 r))"

definition long_to_int :: "int \<Rightarrow> int" where
  "long_to_int x = (x + 2147483648) mod 4294967296 - 2147483648"

definition atoi :: "string \<Rightarrow> int" where
  "atoi s = long_to_int (strtol s)"

section \<open>Connection\<close>

record Connection =
  clientSource :: string
  clientId :: string
  userId :: string
  timestamp :: string
  httpRequestMethod :: string
  requestUri :: string
  httpVersion :: string
  httpStatusCode :: int
  responseSize :: int

section \<open>splitString\<close>

text \<open>
  The loop of \<open>splitString\<close>, with the two cursors of the source. Only the delimiters
  at the beginning are skipped; inside the loop every delimiter ends a token, so two
  delimiters in a row give an empty token.
\<close>

function splitLoop :: "string \<Rightarrow> string \<Rightarrow> nat \<Rightarrow> nat \<Rightarrow> string list \<Rightarrow> error + string list" where
  "splitLoop str delimiters lastPos pos tokens =
     (if npos \<noteq> pos \<or> npos \<noteq> lastPos then
        (case substr str lastPos (sz_sub pos lastPos) of
           Inl e \<Rightarrow> Inl e
         | Inr tok \<Rightarrow>
             (let lastPos' = (if npos = pos then npos else sz_add pos 1);
                  pos' = find_first_of str delimiters lastPos'
              in splitLoop str delimiters lastPos' pos' (tokens @ [tok])))
      else Inr tokens)"
  by pat_completeness auto

lemma find_if_from_range:
  "find_if_from s P pos = npos \<or> (pos \<le> find_if_from s P pos \<and> find_if_from s P pos < npos)"
  by (simp add: find_if_from_def split: option.splits)

lemma find_if_from_npos: "find_if_from s P npos = npos"
  using find_if_from_range [of s P npos] by auto

termination splitLoop
proof (relation "measure (\<lambda>(str, delimiters, lastPos, pos, tokens).
          if npos < pos then npos + 3
          else if pos = npos then (if lastPos = npos then 0 else 1)
          else 2 + (npos - pos))", goal_cases)
  case 1
  show ?case by simp
next
  case (2 str delimiters lastPos pos tokens tok lastPos' pos')
  have r: "pos' = npos \<or> (lastPos' \<le> pos' \<and> pos' < npos)"
    unfolding 2(4) find_first_of_def by (rule find_if_from_range)
  show ?case
  proof (cases "pos = npos")
    case True
    with 2 have "lastPos' = npos" "lastPos \<noteq> npos" by auto
    with 2(4) have "pos' = npos" by (simp add: find_first_of_def find_if_from_npos)
    with True \<open>lastPos' = npos\<close> \<open>lastPos \<noteq> npos\<close> show ?thesis by simp
  next
    case False
    show ?thesis
    proof (cases "npos < pos")
      case True
      with r show ?thesis by auto
    next
      case lt: False
      with False have "pos < npos" by simp
      then have "lastPos' = pos + 1"
        using 2(3) False by (simp add: sz_add_def npos_def)
      with r \<open>pos < npos\<close> show ?thesis by auto
    qed
  qed
qed

declare splitLoop.simps [simp del]

definition splitString :: "string \<Rightarrow> string \<Rightarrow> error + string list" where
  "splitString str delimiters =
     (let lastPos = find_first_not_of str delimiters 0;
          pos = find_first_of str delimiters lastPos
      in splitLoop str delimiters lastPos pos [])"

section \<open>parseConnectionFromLine\<close>

text \<open>The default constructor of \<open>Connection\<close>: empty strings and zeros.\<close>

definition Connection_init :: Connection where
  "Connection_init =
     \<lparr>clientSource = [], clientId = [], userId = [], timestamp = [],
      httpRequestMethod = [], requestUri = [], httpVersion = [],
      httpStatusCode = 0, responseSize = 0\<rparr>"

text \<open>\<open>tokens[i]\<close> on a vector: no bounds check, undefined beyond the size.\<close>

definition vec_at :: "'a list \<Rightarrow> nat \<Rightarrow> error + 'a" where
  "vec_at xs i = (if i < length xs then Inr (xs ! i) else Inl Undefined)"

text \<open>
  The function is one straight-line body in the source; the model cuts it in three at
  the blank lines of the source and threads the connection built so far and the cursor
  \<open>offset2\<close> through. No search result is compared with \<open>npos\<close> anywhere: a search
  that fails yields \<open>npos\<close>, and \<open>npos + 1\<close> wraps to 0.

  First part: client source, client id, user id and time stamp. The cursor returned is the
  position of the closing bracket.
\<close>

definition parseClientFields :: "string \<Rightarrow> error + (Connection \<times> nat)" where
  "parseClientFields line =
     (let connection = Connection_init;
          offset = 0;
          offset2 = str_find line CHR '' '' 0
      in case substr line offset offset2 of Inl e \<Rightarrow> Inl e | Inr src \<Rightarrow>
     (let connection = connection\<lparr>clientSource := src\<rparr>;
          offset = sz_add offset2 1;
          offset2 = str_find line CHR '' '' offset
      in case substr line offset (sz_sub offset2 offset) of Inl e \<Rightarrow> Inl e | Inr cid \<Rightarrow>
     (let connection = connection\<lparr>clientId := cid\<rparr>;
          offset = sz_add offset2 1;
          offset2 = str_find line CHR '' '' offset
      in case substr line offset (sz_sub offset2 offset) of Inl e \<Rightarrow> Inl e | Inr uid \<Rightarrow>
     (let connection = connection\<lparr>userId := uid\<rparr>;
          offset = sz_add (str_find line CHR ''['' (sz_add offset2 1)) 1;
          offset2 = str_find line CHR '']'' offset
      in case substr line offset (sz_sub offset2 offset) of Inl e \<Rightarrow> Inl e | Inr ts \<Rightarrow>
           Inr (connection\<lparr>timestamp := ts\<rparr>, offset2)))))"

text \<open>
  The two cursors around the request: \<open>offset\<close> is the position after the opening quote,
  \<open>offset2\<close> the position of the closing quote, which is searched from \<open>offset + 1\<close>.
\<close>

definition requestQuotes :: "string \<Rightarrow> nat \<Rightarrow> nat \<times> nat" where
  "requestQuotes line offset2 =
     (let offset = sz_add (str_find line CHR 0x22 (sz_add offset2 1)) 1;
          offset2 = str_find line CHR 0x22 (sz_add offset 1)
      in (offset, offset2))"

text \<open>The tokens of the request: the text between the two cursors, split at white space.\<close>

definition requestTokens :: "string \<Rightarrow> nat \<Rightarrow> error + string list" where
  "requestTokens line offset2 =
     (let (offset, offset2) = requestQuotes line offset2
      in case substr line offset (sz_sub offset2 offset) of
           Inl e \<Rightarrow> Inl e
         | Inr request \<Rightarrow> splitString request [CHR '' '', CHR 0x09, CHR 0x0A, CHR 0x0D])"

text \<open>
  Second part: method, URI and version are the first three tokens, taken without a look
  at how many there are. The cursor returned is the position of the closing quote.
\<close>

definition parseRequestLine :: "string \<Rightarrow> Connection \<times> nat \<Rightarrow> error + (Connection \<times> nat)" where
  "parseRequestLine line st =
     (let (connection, offset2) = st
      in case requestTokens line offset2 of Inl e \<Rightarrow> Inl e | Inr tokens \<Rightarrow>
         case vec_at tokens 0 of Inl e \<Rightarrow> Inl e | Inr t0 \<Rightarrow>
         case vec_at tokens 1 of Inl e \<Rightarrow> Inl e | Inr t1 \<Rightarrow>
         case vec_at tokens 2 of Inl e \<Rightarrow> Inl e | Inr t2 \<Rightarrow>
           Inr (connection\<lparr>httpRequestMethod := t0, requestUri := t1, httpVersion := t2\<rparr>,
                snd (requestQuotes line offset2)))"

text \<open>Third part: status code and response size, both through \<open>atoi\<close>.\<close>

definition parseStatusAndSize :: "string \<Rightarrow> Connection \<times> nat \<Rightarrow> error + Connection" where
  "parseStatusAndSize line st =
     (let (connection, offset2) = st;
          offset = str_find line CHR '' '' offset2;
          offset2 = str_find line CHR '' '' (sz_add offset 1)
      in case substr line offset (sz_sub offset2 offset) of Inl e \<Rightarrow> Inl e | Inr statusText \<Rightarrow>
     (let connection = connection\<lparr>httpStatusCode := atoi statusText\<rparr>;
          offset = sz_add offset2 1
      in case substr line offset npos of Inl e \<Rightarrow> Inl e | Inr sizeText \<Rightarrow>
           Inr (connection\<lparr>responseSize := atoi sizeText\<rparr>)))"

definition parseConnectionFromLine :: "string \<Rightarrow> error + Connection" where
  "parseConnectionFromLine line =
     (case parseClientFields line of
        Inl e \<Rightarrow> Inl e
      | Inr st \<Rightarrow>
          (case parseRequestLine line st of
             Inl e \<Rightarrow> Inl e
           | Inr st' \<Rightarrow> parseStatusAndSize line st'))"

section \<open>The map from client source to connections\<close>

text \<open>
  \<open>std::map<string, vector<Connection>>\<close> keeps its entries in ascending order of the
  key, and iteration visits them in that order. The model is the list of entries in
  iteration order; keys compare as \<open>std::string\<close> does (lexicographically, by unsigned
  character code).
\<close>

type_synonym 'v strmap = "(string \<times> 'v) list"

definition map_find :: "string \<Rightarrow> 'v strmap \<Rightarrow> 'v option" where
  "map_find k m = map_of m k"

text \<open>\<open>emplace\<close>: a new entry at its place in the order; nothing when the key is there.\<close>

fun map_emplace :: "string \<Rightarrow> 'v \<Rightarrow> 'v strmap \<Rightarrow> 'v strmap" where
  "map_emplace k v [] = [(k, v)]"
| "map_emplace k v ((k', v') # m) =
     (if k < k' then (k, v) # (k', v') # m
      else if k = k' then (k', v') # m
      else (k', v') # map_emplace k v m)"

text \<open>A change of the value stored under a key that is in the map.\<close>

fun map_modify :: "string \<Rightarrow> ('v \<Rightarrow> 'v) \<Rightarrow> 'v strmap \<Rightarrow> 'v strmap" where
  "map_modify k f [] = []"
| "map_modify k f ((k', v') # m) =
     (if k = k' then (k', f v') # m else (k', v') # map_modify k f m)"

type_synonym connmap = "Connection list strmap"

section \<open>getConnectionAttempts\<close>

definition cerr_skipping :: string where
  "cerr_skipping = ''Failed to parse connection info. Skipping...''"

text \<open>
  The body of the loop over the lines. The state is the map built so far and the lines
  written to \<open>cerr\<close>. An empty line is skipped before the parser is called; an exception
  of the parser is caught and reported on \<open>cerr\<close>; undefined behaviour is not caught.
\<close>

definition addLine :: "string \<Rightarrow> connmap \<times> string list \<Rightarrow> error + (connmap \<times> string list)" where
  "addLine line st =
     (let (connections, cerr) = st
      in if line = [] then Inr (connections, cerr)
         else (case parseConnectionFromLine line of
                 Inl e \<Rightarrow>
                   (if e = Undefined then Inl Undefined
                    else Inr (connections, cerr @ [cerr_skipping]))
               | Inr connection \<Rightarrow>
                   (case map_find (clientSource connection) connections of
                      None \<Rightarrow>
                        Inr (map_emplace (clientSource connection) [connection] connections, cerr)
                    | Some _ \<Rightarrow>
                        Inr (map_modify (clientSource connection) (\<lambda>v. v @ [connection])
                               connections, cerr))))"

fun addLines :: "string list \<Rightarrow> connmap \<times> string list \<Rightarrow> error + (connmap \<times> string list)" where
  "addLines [] st = Inr st"
| "addLines (line # logLines) st =
     (case addLine line st of Inl e \<Rightarrow> Inl e | Inr st' \<Rightarrow> addLines logLines st')"

definition getConnectionAttempts :: "string list \<Rightarrow> error + connmap" where
  "getConnectionAttempts logLines =
     (case addLines logLines ([], []) of Inl e \<Rightarrow> Inl e | Inr st \<Rightarrow> Inr (fst st))"

section \<open>The merge of main\<close>

text \<open>
  \<open>v.insert(v.begin() + i, first, last)\<close>: the new elements go before position \<open>i\<close>.
\<close>

definition vec_insert :: "'a list \<Rightarrow> nat \<Rightarrow> 'a list \<Rightarrow> 'a list" where
  "vec_insert v i ys = take i v @ ys @ drop i v"

text \<open>
  The body of the inner loop of \<open>main\<close>: one entry of the map of a log file goes into
  \<open>totalConnections\<close>. For a client that is there already the position handed to
  \<open>insert\<close> is \<open>end() - 1\<close>, the position of the last element (undefined for an empty
  vector).
\<close>

definition mergeEntry :: "string \<times> Connection list \<Rightarrow> connmap \<Rightarrow> error + connmap" where
  "mergeEntry connection totalConnections =
     (case map_find (fst connection) totalConnections of
        None \<Rightarrow> Inr (map_emplace (fst connection) (snd connection) totalConnections)
      | Some v \<Rightarrow>
          if v = [] then Inl Undefined
          else Inr (map_modify (fst connection)
                      (\<lambda>v. vec_insert v (length v - 1) (snd connection)) totalConnections))"

fun mergeInto :: "connmap \<Rightarrow> connmap \<Rightarrow> error + connmap" where
  "mergeInto totalConnections [] = Inr totalConnections"
| "mergeInto totalConnections (connection # connections) =
     (case mergeEntry connection totalConnections of
        Inl e \<Rightarrow> Inl e
      | Inr totalConnections' \<Rightarrow> mergeInto totalConnections' connections)"

text \<open>
  The outer loop of \<open>main\<close> over the log files, each given by its lines (the values of the
  map that \<open>readLogFiles\<close> returns, in the order of the file names).
\<close>

fun main_totalConnections :: "string list list \<Rightarrow> connmap \<Rightarrow> error + connmap" where
  "main_totalConnections [] totalConnections = Inr totalConnections"
| "main_totalConnections (logLines # files) totalConnections =
     (case getConnectionAttempts logLines of
        Inl e \<Rightarrow> Inl e
      | Inr connections \<Rightarrow>
          (case mergeInto totalConnections connections of
             Inl e \<Rightarrow> Inl e
           | Inr totalConnections' \<Rightarrow> main_totalConnections files totalConnections'))"

section \<open>printUniqueIpStats\<close>

text \<open>
  \<open>getSpacerStrings\<close>: the width is a \<open>uint32_t\<close>, the length of the string a
  \<open>size_t\<close>, so both subtractions are done in \<open>size_t\<close> and wrap below zero.
\<close>

definition getSpacerStrings :: "32 word \<Rightarrow> string \<Rightarrow> error + (string \<times> string)" where
  "getSpacerStrings width centreString =
     (case string_fill (sz_sub (unat (width div 2)) (length centreString div 2)) CHR '' '' of
        Inl e \<Rightarrow> Inl e
      | Inr str1 \<Rightarrow>
          (case string_fill (sz_sub (sz_sub (unat width) (length str1)) (length centreString))
                  CHR '' '' of
             Inl e \<Rightarrow> Inl e
           | Inr str2 \<Rightarrow> Inr (str1, str2)))"

text \<open>\<open>std::to_string\<close> of an unsigned number: its decimal digits.\<close>

fun to_string_nat :: "nat \<Rightarrow> string" where
  "to_string_nat n =
     (if n < 10 then [''0123456789'' ! n]
      else to_string_nat (n div 10) @ [''0123456789'' ! (n mod 10)])"

declare to_string_nat.simps [simp del]

definition to_string :: "32 word \<Rightarrow> string" where
  "to_string n = to_string_nat (unat n)"

text \<open>The nine counters of a table, all \<open>uint32_t\<close>.\<close>

record Totals =
  total200 :: "32 word"
  total204 :: "32 word"
  total301 :: "32 word"
  total400 :: "32 word"
  total401 :: "32 word"
  total403 :: "32 word"
  total404 :: "32 word"
  total500 :: "32 word"
  total503 :: "32 word"

definition Totals_init :: Totals where
  "Totals_init =
     \<lparr>total200 = 0, total204 = 0, total301 = 0, total400 = 0, total401 = 0,
      total403 = 0, total404 = 0, total500 = 0, total503 = 0\<rparr>"

text \<open>The \<open>switch\<close> on the status code of one connection.\<close>

definition countStatus :: "Connection \<Rightarrow> Totals \<Rightarrow> Totals" where
  "countStatus connection t =
     (let code = httpStatusCode connection
      in if code = 200 then t\<lparr>total200 := total200 t + 1\<rparr>
         else if code = 204 then t\<lparr>total204 := total204 t + 1\<rparr>
         else if code = 301 then t\<lparr>total301 := total301 t + 1\<rparr>
         else if code = 400 then t\<lparr>total400 := total400 t + 1\<rparr>
         else if code = 401 then t\<lparr>total401 := total401 t + 1\<rparr>
         else if code = 403 then t\<lparr>total403 := total403 t + 1\<rparr>
         else if code = 404 then t\<lparr>total404 := total404 t + 1\<rparr>
         else if code = 500 then t\<lparr>total500 := total500 t + 1\<rparr>
         else if code = 503 then t\<lparr>total503 := total503 t + 1\<rparr>
         else t)"

definition countTotals :: "Connection list \<Rightarrow> Totals" where
  "countTotals connections = fold countStatus connections Totals_init"

definition HEADER_CLIENT_SRC :: string where
  "HEADER_CLIENT_SRC = ''Source''"

definition endl :: string where
  "endl = [CHR 0x0A]"

text \<open>
  The spacers around the header label: the width handed to \<open>getSpacerStrings\<close> is the
  length of the client source when that is longer than the label, and the length of
  the label plus 2 otherwise. The conversion to \<open>uint32_t\<close> keeps the low 32 bits.
\<close>

definition headerSpacers :: "string \<Rightarrow> error + (string \<times> string)" where
  "headerSpacers src =
     (if length HEADER_CLIENT_SRC < length src
      then getSpacerStrings (of_nat (length src)) HEADER_CLIENT_SRC
      else getSpacerStrings (of_nat (length HEADER_CLIENT_SRC + 2)) HEADER_CLIENT_SRC)"

text \<open>One count column of the data row: the bar and the number between its spacers.\<close>

definition countColumn :: "32 word \<Rightarrow> error + string" where
  "countColumn tot =
     (let tmp = to_string tot
      in case getSpacerStrings 11 tmp of
           Inl e \<Rightarrow> Inl e
         | Inr sepStrings \<Rightarrow> Inr (''|'' @ fst sepStrings @ tmp @ snd sepStrings))"

fun countColumns :: "32 word list \<Rightarrow> error + string" where
  "countColumns [] = Inr []"
| "countColumns (tot # totals) =
     (case countColumn tot of
        Inl e \<Rightarrow> Inl e
      | Inr col \<Rightarrow>
          (case countColumns totals of Inl e \<Rightarrow> Inl e | Inr cols \<Rightarrow> Inr (col @ cols)))"

text \<open>The data row: the client source as it is, then the nine count columns.\<close>

definition dataRow :: "string \<Rightarrow> Totals \<Rightarrow> error + string" where
  "dataRow src t =
     (case countColumns [total200 t, total204 t, total301 t, total400 t, total401 t,
                         total403 t, total404 t, total500 t, total503 t] of
        Inl e \<Rightarrow> Inl e
      | Inr cols \<Rightarrow> Inr (''|'' @ src @ cols @ ''|'' @ endl))"

text \<open>
  The width of the source column of the header row, as the source computes it for the
  rule: the two spacers and the label.
\<close>

definition sourceColumnWidth :: "string \<times> string \<Rightarrow> nat" where
  "sourceColumnWidth sepStrings =
     length (fst sepStrings) + length HEADER_CLIENT_SRC + length (snd sepStrings)"

text \<open>The header row and the rule under it.\<close>

definition headerRows :: "string \<Rightarrow> error + string" where
  "headerRows src =
     (case headerSpacers src of
        Inl e \<Rightarrow> Inl e
      | Inr sepStrings \<Rightarrow>
          (case string_fill (sourceColumnWidth sepStrings) CHR ''-'' of
             Inl e \<Rightarrow> Inl e
           | Inr rule \<Rightarrow>
               Inr (''|'' @ fst sepStrings @ HEADER_CLIENT_SRC @ snd sepStrings
                    @ ''| Total 200 | Total 204 | Total 301 | Total 400 | Total 401 | Total 403 | Total 404 | Total 500 | Total 503 |''
                    @ endl
                    @ ''|'' @ rule
                    @ ''|-----------|-----------|-----------|-----------|-----------|-----------|-----------|-----------|-----------|''
                    @ endl)))"

text \<open>The body of the loop of \<open>printUniqueIpStats\<close>: the text of one table.\<close>

definition printTable :: "string \<times> Connection list \<Rightarrow> error + string" where
  "printTable mapEntry =
     (case headerRows (fst mapEntry) of
        Inl e \<Rightarrow> Inl e
      | Inr header \<Rightarrow>
          (case dataRow (fst mapEntry) (countTotals (snd mapEntry)) of
             Inl e \<Rightarrow> Inl e
           | Inr row \<Rightarrow> Inr (header @ row @ endl @ ''----------'' @ endl @ endl)))"

text \<open>The text written to \<open>cout\<close>: the tables of the entries in iteration order.\<close>

fun printUniqueIpStats :: "connmap \<Rightarrow> error + string" where
  "printUniqueIpStats [] = Inr []"
| "printUniqueIpStats (mapEntry # ipMap) =
     (case printTable mapEntry of
        Inl e \<Rightarrow> Inl e
      | Inr table \<Rightarrow>
          (case printUniqueIpStats ipMap of
             Inl e \<Rightarrow> Inl e
           | Inr rest \<Rightarrow> Inr (table @ rest)))"

section \<open>getLongestClientSource\<close>

text \<open>
  Declared with the default \<open>maxWidth = 80\<close> and called from nowhere in the program.
  The comparisons are made in \<open>size_t\<close>; \<open>string(' ', maxWidth)\<close> is the constructor
  \<open>string(count, ch)\<close> with the arguments in this order, that is 32 copies of the
  character with code \<open>maxWidth\<close>.
\<close>

definition longestOrFiller :: "string \<Rightarrow> int \<Rightarrow> string" where
  "longestOrFiller largestString maxWidth =
     (if largestString = [] then replicate 32 (char_of maxWidth) else largestString)"

fun getLongestLoop :: "'v strmap \<Rightarrow> int \<Rightarrow> string \<Rightarrow> string" where
  "getLongestLoop [] maxWidth largestString = longestOrFiller largestString maxWidth"
| "getLongestLoop (ipMap # rest) maxWidth largestString =
     (let len = length (fst ipMap);
          maxW = nat (maxWidth mod 18446744073709551616)
      in if len \<le> maxW \<and> length largestString < len
         then getLongestLoop rest maxWidth (fst ipMap)
         else if len = maxW then largestString
         else if maxW < len then longestOrFiller largestString maxWidth
         else getLongestLoop rest maxWidth largestString)"

definition getLongestClientSource :: "'v strmap \<Rightarrow> int \<Rightarrow> string" where
  "getLongestClientSource totalConnections maxWidth =
     getLongestLoop totalConnections maxWidth []"

section \<open>The notions of the specification\<close>

text \<open>
  A text centred in a column: pad-left is \<open>floor((width - len(text)) / 2)\<close>, pad-right
  is \<open>width - pad-left - len(text)\<close>.
\<close>

definition spec_centred :: "nat \<Rightarrow> string \<Rightarrow> string" where
  "spec_centred width text =
     (let padLeft = (width - length text) div 2;
          padRight = width - padLeft - length text
      in replicate padLeft CHR '' '' @ text @ replicate padRight CHR '' '')"


definition spec_tally :: "int \<Rightarrow> Connection list \<Rightarrow> nat" where
  "spec_tally code records = length (filter (\<lambda>c. httpStatusCode c = code) records)"


text \<open>The client sources in the order in which they are first seen.\<close>

fun spec_discoveryOrder :: "string list \<Rightarrow> string list" where
  "spec_discoveryOrder [] = []"
| "spec_discoveryOrder (s # ss) = s # filter (\<lambda>x. x \<noteq> s) (spec_discoveryOrder ss)"

text \<open>
  A line of the fixed layout
  \<open><source> <clientId> <userId> [<timestamp>] "<method> <uri> <version>" <status> <size>\<close>,
  and what the layout asks of the fields: no space in the source, the two ids and the
  status, no closing bracket in the time stamp, a method that is not empty, and neither
  white space nor a quote in the three parts of the request.
\<close>

fun spec_logLine ::
  "string \<times> string \<times> string \<Rightarrow> string \<Rightarrow> string \<times> string \<times> string \<Rightarrow> string \<Rightarrow> string
     \<Rightarrow> string" where
  "spec_logLine (src, cid, uid) ts (m, u, v) st sz =
     src @ '' '' @ cid @ '' '' @ uid @ '' ['' @ ts @ ''] '' @ [CHR 0x22]
     @ m @ '' '' @ u @ '' '' @ v @ [CHR 0x22] @ '' '' @ st @ '' '' @ sz"

definition spec_requestPart :: "string \<Rightarrow> bool" where
  "spec_requestPart s =
     list_all (\<lambda>x. x \<notin> set [CHR '' '', CHR 0x09, CHR 0x0A, CHR 0x0D, CHR 0x22]) s"

fun spec_fields ::
  "string \<times> string \<times> string \<Rightarrow> string \<Rightarrow> string \<times> string \<times> string \<Rightarrow> string
     \<Rightarrow> bool" where
  "spec_fields (src, cid, uid) ts (m, u, v) st =
     (CHR '' '' \<notin> set src \<and> CHR '' '' \<notin> set cid \<and> CHR '' '' \<notin> set uid
      \<and> CHR '']'' \<notin> set ts \<and> m \<noteq> []
      \<and> spec_requestPart m \<and> spec_requestPart u \<and> spec_requestPart v
      \<and> CHR '' '' \<notin> set st)"

text \<open>The range of \<open>int\<close> (32 bits, signed).\<close>

definition int_range :: "int \<Rightarrow> bool" where
  "int_range i = (- 2147483648 \<le> i \<and> i \<le> 2147483647)"

section \<open>Well-formed maps and their counters\<close>

text \<open>
  The invariant of \<open>std::map\<close>: the keys are in strictly ascending order. Every group
  that the program creates holds at least one connection.
\<close>

definition keys_ascending :: "'v strmap \<Rightarrow> bool" where
  "keys_ascending m = sorted_wrt (<) (map fst m)"

definition groups_nonempty :: "connmap \<Rightarrow> bool" where
  "groups_nonempty m = list_all (\<lambda>entry. snd entry \<noteq> []) m"

definition well_formed :: "connmap \<Rightarrow> bool" where
  "well_formed m = (keys_ascending m \<and> groups_nonempty m)"

text \<open>The records of the lines that parse, in the order of the lines.\<close>

definition parsedRecords :: "string list \<Rightarrow> Connection list" where
  "parsedRecords logLines =
     concat (map (\<lambda>line. case parseConnectionFromLine line of
                            Inl e \<Rightarrow> [] | Inr c \<Rightarrow> [c]) logLines)"

text \<open>
  The group that the merge of \<open>main\<close> stores for a client: the new vector when the
  client is new, and otherwise the new connections inserted before the last element of
  the old vector.
\<close>

definition mergedGroup :: "Connection list option \<Rightarrow> Connection list \<Rightarrow> Connection list" where
  "mergedGroup old new = (case old of None \<Rightarrow> new | Some v \<Rightarrow> vec_insert v (length v - 1) new)"

text \<open>The counters of every group of a map, in the order of the map.\<close>

definition groupCounters :: "connmap \<Rightarrow> Totals strmap" where
  "groupCounters m = map (\<lambda>entry. (fst entry, countTotals (snd entry))) m"

text \<open>Addition of counters, column by column (in \<open>uint32_t\<close>).\<close>

definition addTotals :: "Totals \<Rightarrow> Totals \<Rightarrow> Totals" where
  "addTotals t u =
     \<lparr>total200 = total200 t + total200 u, total204 = total204 t + total204 u,
      total301 = total301 t + total301 u, total400 = total400 t + total400 u,
      total401 = total401 t + total401 u, total403 = total403 t + total403 u,
      total404 = total404 t + total404 u, total500 = total500 t + total500 u,
      total503 = total503 t + total503 u\<rparr>"

text \<open>The counters of one client after a merge.\<close>

definition mergedTotals :: "Totals option \<Rightarrow> Totals option \<Rightarrow> Totals option" where
  "mergedTotals a b =
     (case a of None \<Rightarrow> b
      | Some t \<Rightarrow> (case b of None \<Rightarrow> Some t | Some u \<Rightarrow> Some (addTotals t u)))"

section \<open>Example lines\<close>

text \<open>Lines of the client \<open>10.0.0.7\<close> and of the client \<open>9.9.9.9\<close>, and their records.\<close>

definition line_a1 :: string where
  "line_a1 = ''10.0.0.7 - - [10/Oct/2023:13:55:36 -0700] \"GET /index.html HTTP/1.1\" 200 2326''"

definition rec_a1 :: Connection where
  "rec_a1 = \<lparr>clientSource = ''10.0.0.7'', clientId = ''-'', userId = ''-'',
             timestamp = ''10/Oct/2023:13:55:36 -0700'', httpRequestMethod = ''GET'',
             requestUri = ''/index.html'', httpVersion = ''HTTP/1.1'',
             httpStatusCode = 200, responseSize = 2326\<rparr>"

definition line_a2 :: string where
  "line_a2 = ''10.0.0.7 - - [10/Oct/2023:13:55:40 -0700] \"GET /old HTTP/1.1\" 302 5''"

definition rec_a2 :: Connection where
  "rec_a2 = \<lparr>clientSource = ''10.0.0.7'', clientId = ''-'', userId = ''-'',
             timestamp = ''10/Oct/2023:13:55:40 -0700'', httpRequestMethod = ''GET'',
             requestUri = ''/old'', httpVersion = ''HTTP/1.1'',
             httpStatusCode = 302, responseSize = 5\<rparr>"

definition line_a3 :: string where
  "line_a3 = ''10.0.0.7 - - [11/Oct/2023:08:01:02 -0700] \"GET /missing HTTP/1.1\" 404 153''"

definition rec_a3 :: Connection where
  "rec_a3 = \<lparr>clientSource = ''10.0.0.7'', clientId = ''-'', userId = ''-'',
             timestamp = ''11/Oct/2023:08:01:02 -0700'', httpRequestMethod = ''GET'',
             requestUri = ''/missing'', httpVersion = ''HTTP/1.1'',
             httpStatusCode = 404, responseSize = 153\<rparr>"

definition line_b1 :: string where
  "line_b1 = ''9.9.9.9 - - [10/Oct/2023:13:55:30 -0700] \"GET / HTTP/1.1\" 200 512''"

definition rec_b1 :: Connection where
  "rec_b1 = \<lparr>clientSource = ''9.9.9.9'', clientId = ''-'', userId = ''-'',
             timestamp = ''10/Oct/2023:13:55:30 -0700'', httpRequestMethod = ''GET'',
             requestUri = ''/'', httpVersion = ''HTTP/1.1'',
             httpStatusCode = 200, responseSize = 512\<rparr>"







text \<open>
  A line with the size \<open>-\<close>, a line with a negative size and a line with a size beyond
  the range of \<open>int\<close>.
\<close>

definition line_dash :: string where
  "line_dash = ''10.0.0.7 - - [11/Oct/2023:08:01:07 -0700] \"HEAD /ping HTTP/1.1\" 204 -''"

definition rec_dash :: Connection where
  "rec_dash = \<lparr>clientSource = ''10.0.0.7'', clientId = ''-'', userId = ''-'',
               timestamp = ''11/Oct/2023:08:01:07 -0700'', httpRequestMethod = ''HEAD'',
               requestUri = ''/ping'', httpVersion = ''HTTP/1.1'',
               httpStatusCode = 204, responseSize = 0\<rparr>"

definition line_negative :: string where
  "line_negative = ''10.0.0.7 - - [11/Oct/2023:08:01:09 -0700] \"GET /index.html HTTP/1.1\" 200 -5''"

definition rec_negative :: Connection where
  "rec_negative = \<lparr>clientSource = ''10.0.0.7'', clientId = ''-'', userId = ''-'',
                   timestamp = ''11/Oct/2023:08:01:09 -0700'', httpRequestMethod = ''GET'',
                   requestUri = ''/index.html'', httpVersion = ''HTTP/1.1'',
                   httpStatusCode = 200, responseSize = - 5\<rparr>"

text \<open>The report for one line of \<open>9.9.9.9\<close> followed by one line of \<open>10.0.0.7\<close>.\<close>

definition report_b1_a1 :: string where
  "report_b1_a1 =
     ''| Source | Total 200 | Total 204 | Total 301 | Total 400 | Total 401 | Total 403 | Total 404 | Total 500 | Total 503 |'' @ endl
   @ ''|--------|-----------|-----------|-----------|-----------|-----------|-----------|-----------|-----------|-----------|'' @ endl
   @ ''|10.0.0.7|     1     |     0     |     0     |     0     |     0     |     0     |     0     |     0     |     0     |'' @ endl
   @ endl @ ''----------'' @ endl @ endl
   @ ''|Source | Total 200 | Total 204 | Total 301 | Total 400 | Total 401 | Total 403 | Total 404 | Total 500 | Total 503 |'' @ endl
   @ ''|-------|-----------|-----------|-----------|-----------|-----------|-----------|-----------|-----------|-----------|'' @ endl
   @ ''|9.9.9.9|     1     |     0     |     0     |     0     |     0     |     0     |     0     |     0     |     0     |'' @ endl
   @ endl @ ''----------'' @ endl @ endl"

definition line_big :: string where
  "line_big = ''10.0.0.7 - - [11/Oct/2023:08:01:11 -0700] \"GET /video HTTP/1.1\" 200 4294967301''"

definition rec_big :: Connection where
  "rec_big = \<lparr>clientSource = ''10.0.0.7'', clientId = ''-'', userId = ''-'',
              timestamp = ''11/Oct/2023:08:01:11 -0700'', httpRequestMethod = ''GET'',
              requestUri = ''/video'', httpVersion = ''HTTP/1.1'',
              httpStatusCode = 200, responseSize = 5\<rparr>"

section \<open>Evaluation of the model on concrete lines\<close>

lemmas string_ops =
  str_find_def find_first_of_def find_first_not_of_def find_if_from_def substr_def
  sz_add_def sz_sub_def npos_def vec_at_def

lemmas atoi_ops =
  atoi_def strtol_def long_to_int_def isspace_def isdigit_def digits_value_def digit_value_def

lemmas parse_ops =
  parseConnectionFromLine_def parseClientFields_def requestQuotes_def requestTokens_def
  parseRequestLine_def parseStatusAndSize_def splitString_def splitLoop.simps Connection_init_def

lemmas print_ops =
  headerSpacers_def getSpacerStrings_def string_fill_def string_max_size_def sz_sub_def
  HEADER_CLIENT_SRC_def sourceColumnWidth_def

section \<open>Empty lines\<close>

lemma addLines_append:
  "addLines (xs @ ys) st =
     (case addLines xs st of Inl e \<Rightarrow> Inl e | Inr st' \<Rightarrow> addLines ys st')"
  by (induction xs arbitrary: st) (auto split: sum.splits)

text \<open>
  Claim C9. An empty line is skipped by \<open>getConnectionAttempts\<close> before the parser is
  called: the step of the loop returns the state as it was (the same map, nothing written
  to \<open>cerr\<close>), so an empty line anywhere among the lines changes nothing. The parser is
  not consulted: on the empty line it would index the empty token vector.
\<close>

theorem empty_line_skipped:
  "addLine [] st = Inr st
   \<and> addLines (xs @ [[]] @ ys) st = addLines (xs @ ys) st
   \<and> parseConnectionFromLine [] = Inl Undefined"
proof -
  have a: "addLine [] st = Inr st" for st :: "connmap \<times> string list"
    by (simp add: addLine_def split: prod.splits)
  have "parseConnectionFromLine [] = Inl Undefined"
    by (simp add: parse_ops string_ops)
  moreover have "addLines (xs @ [[]] @ ys) st = addLines (xs @ ys) st"
    by (simp add: addLines_append a split: sum.splits)
  ultimately show ?thesis using a by simp
qed

section \<open>Spacer strings and count columns\<close>

lemma sz_sub_le:
  assumes "b \<le> a" "a < 18446744073709551616"
  shows "sz_sub a b = a - b"
proof -
  have "a + 18446744073709551616 - b = (a - b) + 18446744073709551616"
    using assms by simp
  then have "sz_sub a b = ((a - b) + 18446744073709551616) mod 18446744073709551616"
    by (simp only: sz_sub_def)
  also have "\<dots> = (a - b) mod 18446744073709551616"
    by (rule mod_add_self2)
  also have "\<dots> = a - b"
    using assms by (intro mod_less) simp
  finally show ?thesis .
qed

lemma string_fill_small: "n \<le> 4294967295 \<Longrightarrow> string_fill n c = Inr (replicate n c)"
  by (simp add: string_fill_def string_max_size_def)

lemma unat_u32_bound: "unat (w :: 32 word) \<le> 4294967295"
  using unsigned_less [of w, where 'a = nat] by simp

lemma getSpacerStrings_fits:
  assumes "length s \<le> unat w"
  shows "getSpacerStrings w s =
           Inr (replicate (unat w div 2 - length s div 2) CHR '' '',
                replicate (unat w - (unat w div 2 - length s div 2) - length s) CHR '' '')"
proof -
  let ?n1 = "unat w div 2 - length s div 2"
  have b: "unat w \<le> 4294967295" by (rule unat_u32_bound)
  have h: "unat (w div 2) = unat w div 2" by (simp add: unat_div)
  have n1: "sz_sub (unat (w div 2)) (length s div 2) = ?n1"
    unfolding h using assms b by (intro sz_sub_le) auto
  have f1: "string_fill ?n1 CHR '' '' = Inr (replicate ?n1 CHR '' '')"
    using b by (intro string_fill_small) auto
  have le: "?n1 + length s \<le> unat w" using assms by linarith
  have n2a: "sz_sub (unat w) ?n1 = unat w - ?n1"
    using b by (intro sz_sub_le) auto
  have n2: "sz_sub (unat w - ?n1) (length s) = unat w - ?n1 - length s"
    using le b by (intro sz_sub_le) auto
  have f2: "string_fill (unat w - ?n1 - length s) CHR '' '' =
              Inr (replicate (unat w - ?n1 - length s) CHR '' '')"
    using b by (intro string_fill_small) auto
  show ?thesis
    by (simp add: getSpacerStrings_def n1 f1 n2a n2 f2 del: diff_diff_left)
qed

text \<open>
  Claim C10. For every width \<open>w\<close> and every text \<open>s\<close> that is at most \<open>w\<close> long,
  \<open>getSpacerStrings\<close> returns two spacers, and the spacers and the text together are
  exactly \<open>w\<close> characters long.
\<close>

theorem spacers_fill_width:
  assumes "length s \<le> unat w"
  shows "\<exists>first second. getSpacerStrings w s = Inr (first, second)
           \<and> length first + length s + length second = unat w"
proof -
  have "unat w div 2 - length s div 2 + length s \<le> unat w" using assms by linarith
  then show ?thesis
    unfolding getSpacerStrings_fits [OF assms] by simp
qed

theorem spacers_fill_width_witness:
  "length ''Source'' \<le> unat (9 :: 32 word)
   \<and> (\<exists>first second. getSpacerStrings 9 ''Source'' = Inr (first, second)
        \<and> length first + length ''Source'' + length second = unat (9 :: 32 word))"
  using spacers_fill_width [of "''Source''" 9] by simp

lemma to_string_nat_length: "0 < k \<Longrightarrow> n < 10 ^ k \<Longrightarrow> length (to_string_nat n) \<le> k"
proof (induction k arbitrary: n)
  case 0
  then show ?case by simp
next
  case (Suc k)
  show ?case
  proof (cases "n < 10")
    case True
    then show ?thesis by (simp add: to_string_nat.simps)
  next
    case False
    with Suc.prems have k: "0 < k" by (cases k) auto
    from Suc.prems have "n div 10 < 10 ^ k" by (simp add: less_mult_imp_div_less mult.commute)
    from Suc.IH [OF k this] False show ?thesis
      by (subst to_string_nat.simps) simp
  qed
qed

lemma to_string_length: "length (to_string n) \<le> 10"
proof -
  have "unat n < 10 ^ 10" using unat_u32_bound [of n] by simp
  then show ?thesis unfolding to_string_def by (intro to_string_nat_length) auto
qed


lemma countColumn_centred: "countColumn n = Inr (''|'' @ spec_centred 11 (to_string n))"
proof -
  let ?s = "to_string n"
  have len: "length ?s \<le> 10" by (rule to_string_length)
  then have fits: "length ?s \<le> unat (11 :: 32 word)" by simp
  have l: "unat (11 :: 32 word) div 2 - length ?s div 2 = (11 - length ?s) div 2"
    using len by simp
  show ?thesis
    unfolding countColumn_def Let_def getSpacerStrings_fits [OF fits] l
    by (simp add: spec_centred_def Let_def)
qed

lemma spec_centred_length: "length text \<le> width \<Longrightarrow> length (spec_centred width text) = width"
  by (simp add: spec_centred_def Let_def)

text \<open>
  Claim C7. The data row is the bar and the client source followed by the nine count
  columns, each the bar and the number centred by the rule of the specification in a
  width of 11: pad-left is \<open>(11 - len) div 2\<close>, pad-right \<open>11 - pad-left - len\<close>, and the
  column is exactly 11 characters wide.
\<close>

theorem count_columns_centred:
  "dataRow src t =
     Inr (''|'' @ src
          @ concat (map (\<lambda>n. ''|'' @ spec_centred 11 (to_string n))
                      [total200 t, total204 t, total301 t, total400 t, total401 t,
                       total403 t, total404 t, total500 t, total503 t])
          @ ''|'' @ endl)
   \<and> (\<forall>n. length (spec_centred 11 (to_string n)) = 11)"
proof -
  have "length (spec_centred 11 (to_string n)) = 11" for n
    using to_string_length [of n] by (intro spec_centred_length) simp
  then show ?thesis
    by (simp add: dataRow_def countColumn_centred)
qed

section \<open>The source column\<close>

lemma headerSpacers_width:
  assumes "length src < 4294967296"
  shows "\<exists>sepStrings. headerSpacers src = Inr sepStrings
           \<and> sourceColumnWidth sepStrings =
               (if length HEADER_CLIENT_SRC < length src then length src
                else length HEADER_CLIENT_SRC + 2)"
proof (cases "length HEADER_CLIENT_SRC < length src")
  case True
  have u: "unat (of_nat (length src) :: 32 word) = length src"
    using assms by (simp add: unat_of_nat)
  have fits: "length HEADER_CLIENT_SRC \<le> unat (of_nat (length src) :: 32 word)"
    using True u by simp
  have "length src div 2 - length HEADER_CLIENT_SRC div 2 + length HEADER_CLIENT_SRC \<le> length src"
    using True by linarith
  then show ?thesis
    using True
    by (simp add: headerSpacers_def getSpacerStrings_fits [OF fits] u sourceColumnWidth_def)
next
  case False
  have fits: "length HEADER_CLIENT_SRC \<le> unat (8 :: 32 word)"
    by (simp add: HEADER_CLIENT_SRC_def)
  have e: "(of_nat (length HEADER_CLIENT_SRC + 2) :: 32 word) = 8"
    by (simp add: HEADER_CLIENT_SRC_def)
  have g: "getSpacerStrings 8 HEADER_CLIENT_SRC = Inr ([CHR '' ''], [CHR '' ''])"
    using getSpacerStrings_fits [OF fits] by (simp add: HEADER_CLIENT_SRC_def)
  show ?thesis
    using False unfolding headerSpacers_def e g
    by (simp add: sourceColumnWidth_def)
qed

text \<open>
  Claim C8, as amended. For a client source of fewer than \<open>2 ^ 32\<close> characters the
  source column of the header row and of the rule under it is as wide as the client
  source when that is longer than the label \<open>Source\<close> (6 characters), with no upper
  bound, and 8 characters wide (the label and 2) otherwise. The data row prints the client
  source as it is, without padding.
\<close>

theorem source_column_width:
  assumes "length src < 4294967296"
  shows "\<exists>sepStrings cols.
           headerSpacers src = Inr sepStrings
           \<and> sourceColumnWidth sepStrings =
               (if length HEADER_CLIENT_SRC < length src then length src
                else length HEADER_CLIENT_SRC + 2)
           \<and> headerRows src =
               Inr (''|'' @ fst sepStrings @ HEADER_CLIENT_SRC @ snd sepStrings
                    @ ''| Total 200 | Total 204 | Total 301 | Total 400 | Total 401 | Total 403 | Total 404 | Total 500 | Total 503 |''
                    @ endl
                    @ ''|'' @ replicate (sourceColumnWidth sepStrings) CHR ''-''
                    @ ''|-----------|-----------|-----------|-----------|-----------|-----------|-----------|-----------|-----------|''
                    @ endl)
           \<and> dataRow src t = Inr (''|'' @ src @ ''|'' @ cols)"
proof -
  from headerSpacers_width [OF assms] obtain sepStrings where
    h: "headerSpacers src = Inr sepStrings" and
    w: "sourceColumnWidth sepStrings =
          (if length HEADER_CLIENT_SRC < length src then length src
           else length HEADER_CLIENT_SRC + 2)"
    by blast
  have "sourceColumnWidth sepStrings \<le> 4294967295"
    using w assms by (simp add: HEADER_CLIENT_SRC_def split: if_splits)
  then have f: "string_fill (sourceColumnWidth sepStrings) CHR ''-'' =
                  Inr (replicate (sourceColumnWidth sepStrings) CHR ''-'')"
    by (rule string_fill_small)
  have r: "headerRows src =
               Inr (''|'' @ fst sepStrings @ HEADER_CLIENT_SRC @ snd sepStrings
                    @ ''| Total 200 | Total 204 | Total 301 | Total 400 | Total 401 | Total 403 | Total 404 | Total 500 | Total 503 |''
                    @ endl
                    @ ''|'' @ replicate (sourceColumnWidth sepStrings) CHR ''-''
                    @ ''|-----------|-----------|-----------|-----------|-----------|-----------|-----------|-----------|-----------|''
                    @ endl)"
    by (simp only: headerRows_def h f sum.case)
  have d: "\<exists>cols. dataRow src t = Inr (''|'' @ src @ ''|'' @ cols)"
    by (simp add: dataRow_def countColumn_centred)
  from h w r d show ?thesis by blast
qed

theorem source_column_width_witness:
  "length ''::1'' < (4294967296 :: nat)
   \<and> (\<exists>sepStrings cols.
           headerSpacers ''::1'' = Inr sepStrings
           \<and> sourceColumnWidth sepStrings =
               (if length HEADER_CLIENT_SRC < length ''::1'' then length ''::1''
                else length HEADER_CLIENT_SRC + 2)
           \<and> headerRows ''::1'' =
               Inr (''|'' @ fst sepStrings @ HEADER_CLIENT_SRC @ snd sepStrings
                    @ ''| Total 200 | Total 204 | Total 301 | Total 400 | Total 401 | Total 403 | Total 404 | Total 500 | Total 503 |''
                    @ endl
                    @ ''|'' @ replicate (sourceColumnWidth sepStrings) CHR ''-''
                    @ ''|-----------|-----------|-----------|-----------|-----------|-----------|-----------|-----------|-----------|''
                    @ endl)
           \<and> dataRow ''::1'' Totals_init = Inr (''|'' @ ''::1'' @ ''|'' @ cols))"
proof -
  have h: "length ''::1'' < (4294967296 :: nat)" by simp
  show ?thesis using h source_column_width [OF h, of Totals_init] by blast
qed

text \<open>
  Claim C8 as stated fails: a client source of 81 characters gets a source column of
  81 characters, above the bound of 80. \<open>getLongestClientSource\<close>, which knows the
  bound, is called nowhere.
\<close>

theorem source_column_uncapped_counterexample:
  "headerSpacers (replicate 81 CHR ''a'') = Inr (replicate 37 CHR '' '', replicate 38 CHR '' '')
   \<and> sourceColumnWidth (replicate 37 CHR '' '', replicate 38 CHR '' '') = 81"
  by (simp add: print_ops)

section \<open>One client source, one group\<close>

lemma parse_empty: "parseConnectionFromLine [] = Inl Undefined"
  by (simp add: parse_ops string_ops)




lemma fold_countStatus:
  "fold countStatus rs t =
     \<lparr>total200 = total200 t + of_nat (spec_tally 200 rs),
      total204 = total204 t + of_nat (spec_tally 204 rs),
      total301 = total301 t + of_nat (spec_tally 301 rs),
      total400 = total400 t + of_nat (spec_tally 400 rs),
      total401 = total401 t + of_nat (spec_tally 401 rs),
      total403 = total403 t + of_nat (spec_tally 403 rs),
      total404 = total404 t + of_nat (spec_tally 404 rs),
      total500 = total500 t + of_nat (spec_tally 500 rs),
      total503 = total503 t + of_nat (spec_tally 503 rs)\<rparr>"
proof (induction rs arbitrary: t)
  case Nil
  show ?case by (simp add: spec_tally_def)
next
  case (Cons r rs)
  show ?case
    unfolding fold_simps Cons.IH
    by (simp add: countStatus_def Let_def spec_tally_def)
qed








lemma parse_line_a1: "parseConnectionFromLine line_a1 = Inr rec_a1"
  by (simp add: line_a1_def rec_a1_def parse_ops string_ops atoi_ops)

lemma parse_line_a2: "parseConnectionFromLine line_a2 = Inr rec_a2"
  by (simp add: line_a2_def rec_a2_def parse_ops string_ops atoi_ops)


section \<open>The map operations\<close>

lemma map_of_emplace:
  "map_of m k = None \<Longrightarrow> map_of (map_emplace k v m) = (map_of m)(k \<mapsto> v)"
  by (induction m) (auto split: if_splits)

lemma keys_emplace: "set (map fst (map_emplace k v m)) = insert k (set (map fst m))"
  by (induction k v m rule: map_emplace.induct) (simp_all add: insert_commute insert_absorb)

lemma keys_ascending_emplace:
  "keys_ascending m \<Longrightarrow> keys_ascending (map_emplace k v m)"
  unfolding keys_ascending_def
proof (induction m)
  case Nil
  then show ?case by simp
next
  case (Cons e m)
  obtain k' v' where e: "e = (k', v')" by (cases e)
  from Cons.prems e have lt: "\<forall>x\<in>set (map fst m). k' < x" and s: "sorted_wrt (<) (map fst m)"
    by auto
  show ?case
  proof (cases "k < k'")
    case True
    with Cons.prems e show ?thesis by auto
  next
    case False
    show ?thesis
    proof (cases "k = k'")
      case True
      with Cons.prems e show ?thesis by simp
    next
      case ne: False
      with False have "k' < k" by simp
      with lt have "\<forall>x\<in>set (map fst (map_emplace k v m)). k' < x"
        unfolding keys_emplace by simp
      with Cons.IH [OF s] False ne e show ?thesis by simp
    qed
  qed
qed

lemma keys_modify: "map fst (map_modify k f m) = map fst m"
  by (induction m) auto

lemma map_of_modify:
  "map_of (map_modify k f m) = (\<lambda>k'. if k' = k then map_option f (map_of m k) else map_of m k')"
  by (induction m) (auto simp: fun_eq_iff)

lemma keys_ascending_modify: "keys_ascending m \<Longrightarrow> keys_ascending (map_modify k f m)"
  by (simp add: keys_ascending_def keys_modify)

lemma groups_nonempty_emplace:
  "groups_nonempty m \<Longrightarrow> v \<noteq> [] \<Longrightarrow> groups_nonempty (map_emplace k v m)"
  unfolding groups_nonempty_def by (induction m) auto

lemma groups_nonempty_modify:
  assumes "groups_nonempty m" and f: "\<And>x. x \<noteq> [] \<Longrightarrow> f x \<noteq> []"
  shows "groups_nonempty (map_modify k f m)"
  using assms(1) unfolding groups_nonempty_def
proof (induction m)
  case Nil
  show ?case by simp
next
  case (Cons e m)
  obtain k' v' where e: "e = (k', v')" by (cases e)
  with Cons.prems have "v' \<noteq> []" by simp
  then have "f v' \<noteq> []" by (rule f)
  with Cons e show ?case by simp
qed

lemma groups_nonempty_map_of:
  "groups_nonempty m \<Longrightarrow> map_of m k = Some v \<Longrightarrow> v \<noteq> []"
  unfolding groups_nonempty_def by (induction m) (auto split: if_splits)

lemma keys_ascending_distinct: "keys_ascending m \<Longrightarrow> distinct (map fst m)"
  by (simp add: keys_ascending_def strict_sorted_iff)

lemma keys_ascending_unique:
  assumes "keys_ascending m" "keys_ascending m'" "map_of m = map_of m'"
  shows "m = m'"
proof -
  have d: "distinct (map fst m)" "distinct (map fst m')"
    using assms by (auto dest: keys_ascending_distinct)
  have so: "sorted (map fst m)" "sorted (map fst m')"
    using assms by (auto simp: keys_ascending_def strict_sorted_iff)
  have s: "set m = set m'"
    using assms(3) d by (simp add: map_of_inject_set)
  have i: "inj_on fst (set m \<union> set m')"
    using s d(1) by (simp add: distinct_map)
  show ?thesis
    by (rule map_sorted_distinct_set_unique [OF i so(1) d(1) so(2) d(2) s])
qed

section \<open>Invariants of getConnectionAttempts and of the merge\<close>

lemma addLine_cases:
  assumes "addLine line st = Inr st'"
  shows "(line = [] \<and> st' = st)
       \<or> (\<exists>e. parseConnectionFromLine line = Inl e \<and> e \<noteq> Undefined
              \<and> st' = (fst st, snd st @ [cerr_skipping]))
       \<or> (\<exists>c. parseConnectionFromLine line = Inr c \<and> snd st' = snd st
              \<and> fst st' = (case map_find (clientSource c) (fst st) of
                             None \<Rightarrow> map_emplace (clientSource c) [c] (fst st)
                           | Some _ \<Rightarrow> map_modify (clientSource c) (\<lambda>v. v @ [c]) (fst st)))"
  using assms
  by (cases st) (auto simp: addLine_def split: if_splits sum.splits option.splits)

lemma addLine_invariants:
  assumes "addLine line st = Inr st'"
  shows "(keys_ascending (fst st) \<longrightarrow> keys_ascending (fst st'))
       \<and> (groups_nonempty (fst st) \<longrightarrow> groups_nonempty (fst st'))
       \<and> set (map fst (fst st'))
           = set (map fst (fst st)) \<union> set (map clientSource (parsedRecords [line]))"
proof -
  from addLine_cases [OF assms] consider
      (empty) "line = []" "st' = st"
    | (caught) e where "parseConnectionFromLine line = Inl e" "st' = (fst st, snd st @ [cerr_skipping])"
    | (parsed) c where "parseConnectionFromLine line = Inr c"
        "fst st' = (case map_find (clientSource c) (fst st) of
                      None \<Rightarrow> map_emplace (clientSource c) [c] (fst st)
                    | Some _ \<Rightarrow> map_modify (clientSource c) (\<lambda>v. v @ [c]) (fst st))"
    by blast
  then show ?thesis
  proof cases
    case empty
    then show ?thesis by (simp add: parsedRecords_def parse_empty)
  next
    case caught
    then show ?thesis by (simp add: parsedRecords_def)
  next
    case parsed
    show ?thesis
    proof (cases "map_find (clientSource c) (fst st)")
      case None
      with parsed show ?thesis
        by (simp add: parsedRecords_def keys_ascending_emplace groups_nonempty_emplace
              keys_emplace del: set_map)
    next
      case (Some v)
      then have "clientSource c \<in> set (map fst (fst st))"
        unfolding map_find_def by (metis map_of_eq_None_iff option.distinct(1) set_map)
      with parsed Some show ?thesis
        by (auto simp: parsedRecords_def keys_ascending_modify keys_modify
              intro!: groups_nonempty_modify)
    qed
  qed
qed

lemma parsedRecords_Cons:
  "parsedRecords (l # ls) = parsedRecords [l] @ parsedRecords ls"
  by (simp add: parsedRecords_def)

lemma parsedRecords_append:
  "parsedRecords (xs @ ys) = parsedRecords xs @ parsedRecords ys"
  by (simp add: parsedRecords_def)

lemma addLines_invariants:
  assumes "addLines logLines st = Inr st'"
  shows "(keys_ascending (fst st) \<longrightarrow> keys_ascending (fst st'))
       \<and> (groups_nonempty (fst st) \<longrightarrow> groups_nonempty (fst st'))
       \<and> set (map fst (fst st'))
           = set (map fst (fst st)) \<union> set (map clientSource (parsedRecords logLines))"
  using assms
proof (induction logLines arbitrary: st)
  case Nil
  then show ?case by (simp add: parsedRecords_def)
next
  case (Cons l ls)
  then obtain st1 where a: "addLine l st = Inr st1" and b: "addLines ls st1 = Inr st'"
    by (auto split: sum.splits)
  from addLine_invariants [OF a] Cons.IH [OF b] show ?case
    unfolding parsedRecords_Cons [of l ls] by auto
qed

lemma getConnectionAttempts_invariants:
  assumes "getConnectionAttempts logLines = Inr m"
  shows "keys_ascending m \<and> groups_nonempty m
       \<and> set (map fst m) = set (map clientSource (parsedRecords logLines))"
proof -
  from assms obtain st' where a: "addLines logLines ([], []) = Inr st'" and m: "m = fst st'"
    by (auto simp: getConnectionAttempts_def split: sum.splits)
  from addLines_invariants [OF a] m show ?thesis
    by (simp add: keys_ascending_def groups_nonempty_def)
qed

lemma vec_insert_nonempty: "v \<noteq> [] \<Longrightarrow> vec_insert v (length v - 1) ys \<noteq> []"
  by (cases v rule: rev_cases) (simp_all add: vec_insert_def)

lemma mergeEntry_ok:
  assumes "groups_nonempty tot"
  shows "\<exists>r. mergeEntry (k, v) tot = Inr r
           \<and> map_of r = (map_of tot)(k \<mapsto> mergedGroup (map_of tot k) v)
           \<and> (keys_ascending tot \<longrightarrow> keys_ascending r)
           \<and> (v \<noteq> [] \<longrightarrow> groups_nonempty r)
           \<and> set (map fst r) = insert k (set (map fst tot))"
proof (cases "map_of tot k")
  case None
  then show ?thesis
    using assms
    by (simp add: mergeEntry_def map_find_def map_of_emplace mergedGroup_def
          keys_ascending_emplace groups_nonempty_emplace keys_emplace del: set_map)
next
  case (Some xs)
  with assms have ne: "xs \<noteq> []" by (auto dest: groups_nonempty_map_of)
  from Some have k: "k \<in> set (map fst tot)"
    by (metis map_of_eq_None_iff option.distinct(1) set_map)
  have g: "groups_nonempty (map_modify k (\<lambda>v'. vec_insert v' (length v' - 1) v) tot)"
    using assms by (rule groups_nonempty_modify) (rule vec_insert_nonempty)
  let ?r = "map_modify k (\<lambda>v'. vec_insert v' (length v' - 1) v) tot"
  have r: "mergeEntry (k, v) tot = Inr ?r"
    using Some ne by (simp add: mergeEntry_def map_find_def)
  have mo: "map_of ?r = (map_of tot)(k \<mapsto> mergedGroup (map_of tot k) v)"
    using Some by (auto simp: map_of_modify mergedGroup_def fun_eq_iff)
  have ks: "set (map fst ?r) = insert k (set (map fst tot))"
    using k by (simp only: keys_modify insert_absorb)
  have ka: "keys_ascending tot \<longrightarrow> keys_ascending ?r"
    by (simp add: keys_ascending_modify)
  from r mo ks ka g show ?thesis by blast
qed

lemma mergeInto_ok:
  assumes "groups_nonempty tot" "groups_nonempty conns" "distinct (map fst conns)"
  shows "\<exists>r. mergeInto tot conns = Inr r
           \<and> map_of r = (\<lambda>k. case map_of conns k of
                               None \<Rightarrow> map_of tot k
                             | Some v \<Rightarrow> Some (mergedGroup (map_of tot k) v))
           \<and> (keys_ascending tot \<longrightarrow> keys_ascending r)
           \<and> groups_nonempty r
           \<and> set (map fst r) = set (map fst tot) \<union> set (map fst conns)"
  using assms
proof (induction conns arbitrary: tot)
  case Nil
  then show ?case by simp
next
  case (Cons e conns)
  obtain k v where e: "e = (k, v)" by (cases e)
  with Cons.prems have v: "v \<noteq> []" and gc: "groups_nonempty conns"
    and d: "distinct (map fst conns)" and kn: "k \<notin> set (map fst conns)"
    by (auto simp: groups_nonempty_def)
  from mergeEntry_ok [OF Cons.prems(1), of k v] v obtain t1 where
    m1: "mergeEntry (k, v) tot = Inr t1"
    and mo1: "map_of t1 = (map_of tot)(k \<mapsto> mergedGroup (map_of tot k) v)"
    and ka1: "keys_ascending tot \<longrightarrow> keys_ascending t1"
    and gn1: "groups_nonempty t1"
    and ks1: "set (map fst t1) = insert k (set (map fst tot))"
    by blast
  from Cons.IH [OF gn1 gc d] obtain r where
    m2: "mergeInto t1 conns = Inr r"
    and mo2: "map_of r = (\<lambda>k. case map_of conns k of
                               None \<Rightarrow> map_of t1 k
                             | Some v \<Rightarrow> Some (mergedGroup (map_of t1 k) v))"
    and ka2: "keys_ascending t1 \<longrightarrow> keys_ascending r"
    and gn2: "groups_nonempty r"
    and ks2: "set (map fst r) = set (map fst t1) \<union> set (map fst conns)"
    by blast
  from kn have none: "map_of conns k = None"
    by (simp add: map_of_eq_None_iff)
  have mo: "map_of r = (\<lambda>k'. case map_of (e # conns) k' of
                               None \<Rightarrow> map_of tot k'
                             | Some v \<Rightarrow> Some (mergedGroup (map_of tot k') v))"
    unfolding mo2 mo1 e using none by (auto simp: fun_eq_iff split: option.splits)
  from m1 m2 have "mergeInto tot (e # conns) = Inr r" by (simp add: e)
  moreover from ks1 ks2 have "set (map fst r) = set (map fst tot) \<union> set (map fst (e # conns))"
    by (auto simp: e)
  ultimately show ?case using mo ka1 ka2 gn2 by blast
qed

section \<open>The merge on the counters\<close>

lemma spec_tally_append: "spec_tally code (xs @ ys) = spec_tally code xs + spec_tally code ys"
  by (simp add: spec_tally_def)

lemma spec_tally_vec_insert:
  "spec_tally code (vec_insert xs i ys) = spec_tally code xs + spec_tally code ys"
proof -
  have "spec_tally code (take i xs) + spec_tally code (drop i xs) = spec_tally code xs"
    unfolding spec_tally_append [symmetric] by simp
  then show ?thesis by (simp add: vec_insert_def spec_tally_append)
qed

lemma countTotals_vec_insert:
  "countTotals (vec_insert xs i ys) = addTotals (countTotals xs) (countTotals ys)"
  by (simp add: countTotals_def fold_countStatus spec_tally_vec_insert addTotals_def
        Totals_init_def)

lemma addTotals_commute: "addTotals t u = addTotals u t"
  by (simp add: addTotals_def add.commute)

lemma addTotals_assoc: "addTotals (addTotals t u) w = addTotals t (addTotals u w)"
  by (simp add: addTotals_def add.assoc)

lemma mergedTotals_commute: "mergedTotals a b = mergedTotals b a"
  by (simp add: mergedTotals_def addTotals_commute split: option.splits)

lemma mergedTotals_assoc:
  "mergedTotals (mergedTotals a b) c = mergedTotals a (mergedTotals b c)"
  by (simp add: mergedTotals_def addTotals_assoc split: option.splits)

lemma map_of_groupCounters:
  "map_of (groupCounters m) k = map_option countTotals (map_of m k)"
  by (induction m) (simp_all add: groupCounters_def)

lemma keys_groupCounters: "map fst (groupCounters m) = map fst m"
  by (simp add: groupCounters_def comp_def)

lemma merge_counters:
  assumes "well_formed a" "well_formed b"
  shows "\<exists>r. mergeInto a b = Inr r \<and> well_formed r
           \<and> (\<forall>k. map_of (groupCounters r) k
                    = mergedTotals (map_of (groupCounters a) k) (map_of (groupCounters b) k))"
proof -
  from assms have "groups_nonempty a" "groups_nonempty b" "distinct (map fst b)"
    by (auto simp: well_formed_def dest: keys_ascending_distinct)
  from mergeInto_ok [OF this] assms(1) obtain r where
    r: "mergeInto a b = Inr r"
    and mo: "map_of r = (\<lambda>k. case map_of b k of
                               None \<Rightarrow> map_of a k
                             | Some v \<Rightarrow> Some (mergedGroup (map_of a k) v))"
    and wf: "well_formed r"
    by (auto simp: well_formed_def)
  have "map_of (groupCounters r) k
          = mergedTotals (map_of (groupCounters a) k) (map_of (groupCounters b) k)" for k
    unfolding map_of_groupCounters mo
    by (simp add: mergedTotals_def mergedGroup_def countTotals_vec_insert split: option.splits)
  with r wf show ?thesis by blast
qed

lemma groupCounters_unique:
  assumes "well_formed m" "well_formed m'"
      and "\<And>k. map_of (groupCounters m) k = map_of (groupCounters m') k"
  shows "groupCounters m = groupCounters m'"
proof (rule keys_ascending_unique)
  show "keys_ascending (groupCounters m)" "keys_ascending (groupCounters m')"
    using assms(1,2) by (simp_all add: well_formed_def keys_ascending_def keys_groupCounters)
  show "map_of (groupCounters m) = map_of (groupCounters m')"
    using assms(3) by (simp add: fun_eq_iff)
qed

text \<open>
  Claim C5. On maps with ascending keys and non-empty groups (the maps that
  \<open>getConnectionAttempts\<close> and the merge produce) the merge of \<open>main\<close> returns a map, and
  on the counters of the groups it is associative and commutative: the counters after
  merging \<open>a\<close> with \<open>b\<close> and then with \<open>c\<close> are those after merging \<open>a\<close> with the merge
  of \<open>b\<close> and \<open>c\<close>, and the counters of \<open>a\<close> merged with \<open>b\<close> are those of \<open>b\<close> merged
  with \<open>a\<close>.
\<close>

theorem merge_counters_assoc_comm:
  assumes "well_formed a" "well_formed b" "well_formed c"
  shows "\<exists>ab bc ba abc a_bc.
           mergeInto a b = Inr ab \<and> mergeInto b c = Inr bc \<and> mergeInto b a = Inr ba
           \<and> mergeInto ab c = Inr abc \<and> mergeInto a bc = Inr a_bc
           \<and> groupCounters abc = groupCounters a_bc
           \<and> groupCounters ab = groupCounters ba"
proof -
  from merge_counters [OF assms(1,2)] obtain ab where
    ab: "mergeInto a b = Inr ab" "well_formed ab"
      "\<And>k. map_of (groupCounters ab) k
              = mergedTotals (map_of (groupCounters a) k) (map_of (groupCounters b) k)"
    by blast
  from merge_counters [OF assms(2,3)] obtain bc where
    bc: "mergeInto b c = Inr bc" "well_formed bc"
      "\<And>k. map_of (groupCounters bc) k
              = mergedTotals (map_of (groupCounters b) k) (map_of (groupCounters c) k)"
    by blast
  from merge_counters [OF assms(2,1)] obtain ba where
    ba: "mergeInto b a = Inr ba" "well_formed ba"
      "\<And>k. map_of (groupCounters ba) k
              = mergedTotals (map_of (groupCounters b) k) (map_of (groupCounters a) k)"
    by blast
  from merge_counters [OF ab(2) assms(3)] obtain abc where
    abc: "mergeInto ab c = Inr abc" "well_formed abc"
      "\<And>k. map_of (groupCounters abc) k
              = mergedTotals (map_of (groupCounters ab) k) (map_of (groupCounters c) k)"
    by blast
  from merge_counters [OF assms(1) bc(2)] obtain a_bc where
    a_bc: "mergeInto a bc = Inr a_bc" "well_formed a_bc"
      "\<And>k. map_of (groupCounters a_bc) k
              = mergedTotals (map_of (groupCounters a) k) (map_of (groupCounters bc) k)"
    by blast
  have assoc: "groupCounters abc = groupCounters a_bc"
    using abc(2) a_bc(2)
    by (rule groupCounters_unique) (simp add: abc(3) a_bc(3) ab(3) bc(3) mergedTotals_assoc)
  have comm: "groupCounters ab = groupCounters ba"
    using ab(2) ba(2)
    by (rule groupCounters_unique) (simp add: ab(3) ba(3) mergedTotals_commute)
  from ab(1) bc(1) ba(1) abc(1) a_bc(1) assoc comm show ?thesis by blast
qed

theorem merge_counters_assoc_comm_witness:
  "well_formed [(''10.0.0.7'', [rec_a1, rec_a2])]
   \<and> well_formed [(''10.0.0.7'', [rec_a3]), (''9.9.9.9'', [rec_b1])]
   \<and> well_formed [(''9.9.9.9'', [rec_b1])]
   \<and> (\<exists>ab bc ba abc a_bc.
         mergeInto [(''10.0.0.7'', [rec_a1, rec_a2])]
                   [(''10.0.0.7'', [rec_a3]), (''9.9.9.9'', [rec_b1])] = Inr ab
         \<and> mergeInto [(''10.0.0.7'', [rec_a3]), (''9.9.9.9'', [rec_b1])]
                     [(''9.9.9.9'', [rec_b1])] = Inr bc
         \<and> mergeInto [(''10.0.0.7'', [rec_a3]), (''9.9.9.9'', [rec_b1])]
                     [(''10.0.0.7'', [rec_a1, rec_a2])] = Inr ba
         \<and> mergeInto ab [(''9.9.9.9'', [rec_b1])] = Inr abc
         \<and> mergeInto [(''10.0.0.7'', [rec_a1, rec_a2])] bc = Inr a_bc
         \<and> groupCounters abc = groupCounters a_bc
         \<and> groupCounters ab = groupCounters ba)"
proof -
  have a: "well_formed [(''10.0.0.7'', [rec_a1, rec_a2])]"
    by (simp add: well_formed_def keys_ascending_def groups_nonempty_def)
  have b: "well_formed [(''10.0.0.7'', [rec_a3]), (''9.9.9.9'', [rec_b1])]"
    by (simp add: well_formed_def keys_ascending_def groups_nonempty_def)
  have c: "well_formed [(''9.9.9.9'', [rec_b1])]"
    by (simp add: well_formed_def keys_ascending_def groups_nonempty_def)
  from merge_counters_assoc_comm [OF a b c] a b c show ?thesis by blast
qed

section \<open>The merged map and the order of the tables\<close>

lemma parse_line_a3: "parseConnectionFromLine line_a3 = Inr rec_a3"
  by (simp add: line_a3_def rec_a3_def parse_ops string_ops atoi_ops)

lemma parse_line_b1: "parseConnectionFromLine line_b1 = Inr rec_b1"
  by (simp add: line_b1_def rec_b1_def parse_ops string_ops atoi_ops)

lemma line_a1_nonempty: "line_a1 \<noteq> []" and line_a2_nonempty: "line_a2 \<noteq> []"
  and line_a3_nonempty: "line_a3 \<noteq> []" and line_b1_nonempty: "line_b1 \<noteq> []"
  by (simp_all add: line_a1_def line_a2_def line_a3_def line_b1_def)

lemmas example_parses =
  parse_line_a1 parse_line_a2 parse_line_a3 parse_line_b1
  line_a1_nonempty line_a2_nonempty line_a3_nonempty line_b1_nonempty

lemma source_rec_a1: "clientSource rec_a1 = ''10.0.0.7''"
  and source_rec_a2: "clientSource rec_a2 = ''10.0.0.7''"
  and source_rec_a3: "clientSource rec_a3 = ''10.0.0.7''"
  and source_rec_b1: "clientSource rec_b1 = ''9.9.9.9''"
  by (simp_all add: rec_a1_def rec_a2_def rec_a3_def rec_b1_def)

lemmas example_sources = source_rec_a1 source_rec_a2 source_rec_a3 source_rec_b1

lemmas aggregate_ops =
  getConnectionAttempts_def addLine_def map_find_def mergeEntry_def vec_insert_def

text \<open>
  Claim C4 fails on the code. Two log files with lines of one client: the first file gives
  the records \<open>rec_a1, rec_a2\<close>, the second \<open>rec_a3\<close>. The merge of \<open>main\<close> inserts at
  \<open>end() - 1\<close>, so the record of the second file lands before the last record of the
  first, not after it.
\<close>

theorem merge_inserts_before_last:
  "mergeInto [(''10.0.0.7'', [rec_a1, rec_a2])] [(''10.0.0.7'', [rec_a3])]
     = Inr [(''10.0.0.7'', [rec_a1, rec_a3, rec_a2])]
   \<and> main_totalConnections [[line_a1, line_a2], [line_a3]] []
     = Inr [(''10.0.0.7'', [rec_a1, rec_a3, rec_a2])]"
  by (simp add: aggregate_ops example_parses example_sources)

lemma parseClientFields_source:
  "parseClientFields line = Inr st \<Longrightarrow> clientSource (fst st) = take (str_find line CHR '' '' 0) line"
  by (auto simp: parseClientFields_def Let_def substr_def Connection_init_def
        split: sum.splits if_splits)

lemma parseRequestLine_source:
  "parseRequestLine line st = Inr st' \<Longrightarrow> clientSource (fst st') = clientSource (fst st)"
  by (auto simp: parseRequestLine_def Let_def split: sum.splits prod.splits)

lemma parseStatusAndSize_source:
  "parseStatusAndSize line st = Inr c \<Longrightarrow> clientSource c = clientSource (fst st)"
  by (auto simp: parseStatusAndSize_def Let_def split: sum.splits prod.splits)

lemma parse_source_length:
  assumes "parseConnectionFromLine line = Inr c"
  shows "length (clientSource c) \<le> length line"
proof -
  from assms obtain st st' where
    "parseClientFields line = Inr st" "parseRequestLine line st = Inr st'"
    "parseStatusAndSize line st' = Inr c"
    by (auto simp: parseConnectionFromLine_def split: sum.splits)
  then have "clientSource c = take (str_find line CHR '' '' 0) line"
    by (simp add: parseClientFields_source parseRequestLine_source parseStatusAndSize_source)
  then show ?thesis by simp
qed

lemma parsedRecords_source_length:
  assumes "c \<in> set (parsedRecords logLines)"
  shows "\<exists>line\<in>set logLines. length (clientSource c) \<le> length line"
proof -
  from assms obtain line where "line \<in> set logLines" "parseConnectionFromLine line = Inr c"
    by (auto simp: parsedRecords_def split: sum.splits)
  then show ?thesis using parse_source_length by blast
qed

lemma main_totalConnections_invariants:
  assumes "main_totalConnections files tot = Inr r" "keys_ascending tot" "groups_nonempty tot"
  shows "keys_ascending r \<and> groups_nonempty r
       \<and> set (map fst r)
           = set (map fst tot) \<union> set (map clientSource (parsedRecords (concat files)))"
  using assms
proof (induction files arbitrary: tot)
  case Nil
  then show ?case by (simp add: parsedRecords_def)
next
  case (Cons logLines files)
  from Cons.prems(1) obtain conns tot1 where
    g: "getConnectionAttempts logLines = Inr conns"
    and m: "mergeInto tot conns = Inr tot1"
    and rest: "main_totalConnections files tot1 = Inr r"
    by (auto split: sum.splits)
  from getConnectionAttempts_invariants [OF g] have
    c: "keys_ascending conns" "groups_nonempty conns"
       "set (map fst conns) = set (map clientSource (parsedRecords logLines))"
    by auto
  from mergeInto_ok [OF Cons.prems(3) c(2) keys_ascending_distinct [OF c(1)]] m Cons.prems(2)
  have t1: "keys_ascending tot1" "groups_nonempty tot1"
    "set (map fst tot1) = set (map fst tot) \<union> set (map fst conns)"
    by auto
  from Cons.IH [OF rest t1(1,2)] t1(3) c(3) show ?case
    by (auto simp: parsedRecords_append)
qed

lemma dataRow_ok: "\<exists>row. dataRow src t = Inr row"
  by (simp add: dataRow_def countColumn_centred)

lemma headerRows_ok:
  assumes "length src < 4294967296"
  shows "\<exists>header. headerRows src = Inr header"
proof -
  from headerSpacers_width [OF assms] obtain sepStrings where
    h: "headerSpacers src = Inr sepStrings" and
    w: "sourceColumnWidth sepStrings =
          (if length HEADER_CLIENT_SRC < length src then length src
           else length HEADER_CLIENT_SRC + 2)"
    by blast
  have "sourceColumnWidth sepStrings \<le> 4294967295"
    using w assms by (simp add: HEADER_CLIENT_SRC_def split: if_splits)
  then have "string_fill (sourceColumnWidth sepStrings) CHR ''-'' =
                  Inr (replicate (sourceColumnWidth sepStrings) CHR ''-'')"
    by (rule string_fill_small)
  with h show ?thesis by (simp add: headerRows_def)
qed

lemma printTable_ok:
  assumes "length (fst mapEntry) < 4294967296"
  shows "\<exists>table. printTable mapEntry = Inr table"
proof -
  from headerRows_ok [OF assms] obtain header where "headerRows (fst mapEntry) = Inr header"
    by blast
  moreover from dataRow_ok obtain row where
    "dataRow (fst mapEntry) (countTotals (snd mapEntry)) = Inr row"
    by blast
  ultimately show ?thesis by (simp add: printTable_def)
qed

lemma printUniqueIpStats_tables:
  assumes "\<forall>k\<in>set (map fst ipMap). length k < 4294967296"
  shows "\<exists>tables. map printTable ipMap = map Inr tables
           \<and> printUniqueIpStats ipMap = Inr (concat tables)"
  using assms
proof (induction ipMap)
  case Nil
  show ?case by simp
next
  case (Cons mapEntry ipMap)
  then have "length (fst mapEntry) < 4294967296" by simp
  from printTable_ok [OF this] obtain table where t: "printTable mapEntry = Inr table"
    by blast
  from Cons obtain tables where
    ts: "map printTable ipMap = map Inr tables" "printUniqueIpStats ipMap = Inr (concat tables)"
    by auto
  have "map printTable (mapEntry # ipMap) = map Inr (table # tables)"
    using t ts by simp
  moreover have "printUniqueIpStats (mapEntry # ipMap) = Inr (concat (table # tables))"
    using t ts by simp
  ultimately show ?case by blast
qed

text \<open>
  Claim C3, as amended. When the lines of all log files are shorter than \<open>2 ^ 32\<close>
  characters and \<open>main\<close> builds its map without undefined behaviour, the keys of the map
  are in strictly ascending order (the order of \<open>std::string\<close>), they are exactly the
  client sources of the lines that parse, and the report is one table per entry of the map,
  in that order.
\<close>

theorem tables_in_key_order:
  assumes "main_totalConnections files [] = Inr totalConnections"
      and "\<forall>line\<in>set (concat files). length line < 4294967296"
  shows "sorted_wrt (<) (map fst totalConnections)
       \<and> set (map fst totalConnections) = set (map clientSource (parsedRecords (concat files)))
       \<and> (\<exists>tables. map printTable totalConnections = map Inr tables
              \<and> printUniqueIpStats totalConnections = Inr (concat tables))"
proof -
  have "keys_ascending []" "groups_nonempty []"
    by (simp_all add: keys_ascending_def groups_nonempty_def)
  from main_totalConnections_invariants [OF assms(1) this] have
    k: "keys_ascending totalConnections"
    and s: "set (map fst totalConnections)
              = set (map clientSource (parsedRecords (concat files)))"
    by auto
  have "\<forall>k\<in>set (map fst totalConnections). length k < 4294967296"
    unfolding s using parsedRecords_source_length assms(2)
    by (metis (no_types, lifting) imageE le_less_trans list.set_map)
  from printUniqueIpStats_tables [OF this] k s show ?thesis
    by (simp add: keys_ascending_def)
qed

lemma replicate_numeral: "replicate (numeral k) x = x # replicate (pred_numeral k) x"
  by (simp add: numeral_eq_Suc)

lemmas table_ops =
  replicate_numeral printTable_def headerRows_def dataRow_def countColumn_def countTotals_def countStatus_def
  Totals_init_def to_string_def to_string_nat.simps endl_def

lemma main_example_b1_a1:
  "main_totalConnections [[line_b1, line_a1]] []
     = Inr [(''10.0.0.7'', [rec_a1]), (''9.9.9.9'', [rec_b1])]"
  by (simp add: aggregate_ops example_parses example_sources)

lemma example_lines_short:
  "\<forall>line\<in>set (concat [[line_b1, line_a1]]). length line < 4294967296"
  by (simp add: line_a1_def line_b1_def)

theorem tables_in_key_order_witness:
  "main_totalConnections [[line_b1, line_a1]] []
     = Inr [(''10.0.0.7'', [rec_a1]), (''9.9.9.9'', [rec_b1])]
   \<and> length line_b1 < 4294967296 \<and> length line_a1 < 4294967296
   \<and> sorted_wrt (<) (map fst [(''10.0.0.7'', [rec_a1]), (''9.9.9.9'', [rec_b1])])
   \<and> (\<exists>tables. map printTable [(''10.0.0.7'', [rec_a1]), (''9.9.9.9'', [rec_b1])]
                   = map Inr tables
          \<and> printUniqueIpStats [(''10.0.0.7'', [rec_a1]), (''9.9.9.9'', [rec_b1])]
                   = Inr (concat tables))"
  using tables_in_key_order [OF main_example_b1_a1 example_lines_short]
    main_example_b1_a1 example_lines_short
  by simp

text \<open>
  Claim C3 as stated fails: a line of \<open>9.9.9.9\<close> followed by a line of \<open>10.0.0.7\<close>.
  The client \<open>9.9.9.9\<close> is seen first, but the map holds \<open>10.0.0.7\<close> first, and so does
  the report.
\<close>

theorem tables_not_in_discovery_order_counterexample:
  "main_totalConnections [[line_b1, line_a1]] []
     = Inr [(''10.0.0.7'', [rec_a1]), (''9.9.9.9'', [rec_b1])]
   \<and> spec_discoveryOrder (map clientSource (parsedRecords [line_b1, line_a1]))
     = [''9.9.9.9'', ''10.0.0.7'']
   \<and> printUniqueIpStats [(''10.0.0.7'', [rec_a1]), (''9.9.9.9'', [rec_b1])]
     = Inr report_b1_a1"
proof -
  have "spec_discoveryOrder (map clientSource (parsedRecords [line_b1, line_a1]))
          = [''9.9.9.9'', ''10.0.0.7'']"
    by (simp add: parsedRecords_def example_parses example_sources)
  moreover have "printUniqueIpStats [(''10.0.0.7'', [rec_a1]), (''9.9.9.9'', [rec_b1])]
          = Inr report_b1_a1"
    by (simp add: table_ops print_ops report_b1_a1_def rec_a1_def rec_b1_def)
  ultimately show ?thesis using main_example_b1_a1 by simp
qed

section \<open>Lines with a missing delimiter\<close>

















section \<open>The searches on a line of known shape\<close>

lemma index_of_hit:
  "\<forall>x\<in>set A. \<not> P x \<Longrightarrow> P c \<Longrightarrow> index_of P (A @ c # R) = Some (length A)"
  by (induction A) auto

lemma index_of_miss: "\<forall>x\<in>set A. \<not> P x \<Longrightarrow> index_of P A = None"
  by (induction A) auto

lemma find_if_from_hit:
  assumes "line = Pre @ A @ c # R" "pos = length Pre" "\<forall>x\<in>set A. \<not> P x" "P c"
      and "length line < npos"
  shows "find_if_from line P pos = length Pre + length A"
proof -
  have "drop pos line = A @ c # R" using assms(1,2) by simp
  moreover have "length Pre + length A < npos" using assms(1,5) by simp
  ultimately show ?thesis
    using assms(2,3,4) by (simp add: find_if_from_def index_of_hit)
qed

lemma find_if_from_miss:
  assumes "line = Pre @ A" "pos = length Pre" "\<forall>x\<in>set A. \<not> P x"
  shows "find_if_from line P pos = npos"
proof -
  have "drop pos line = A" using assms(1,2) by simp
  then show ?thesis using assms(3) by (simp add: find_if_from_def index_of_miss)
qed

lemma str_find_hit:
  assumes "line = Pre @ A @ c # R" "pos = length Pre" "c \<notin> set A" "length line < npos"
  shows "str_find line c pos = length Pre + length A"
  unfolding str_find_def
  using assms by (intro find_if_from_hit [where R = R]) auto

lemma substr_hit:
  assumes "line = Pre @ A @ R" "pos = length Pre" "n = length A"
  shows "substr line pos n = Inr A"
  using assms by (simp add: substr_def)

lemma substr_rest:
  assumes "line = Pre @ A" "pos = length Pre" "length A \<le> n"
  shows "substr line pos n = Inr A"
  using assms by (simp add: substr_def)

lemma sz_add_small: "a + b < 18446744073709551616 \<Longrightarrow> sz_add a b = a + b"
  by (simp add: sz_add_def)

lemma sz_sub_small: "b \<le> a \<Longrightarrow> a \<le> npos \<Longrightarrow> sz_sub a b = a - b"
  by (rule sz_sub_le) (simp_all add: npos_def)
section \<open>Lines of the fixed layout\<close>

lemma parseClientFields_layout:
  assumes line: "line = src @ CHR '' '' # cid @ CHR '' '' # uid @ CHR '' '' # CHR ''['' # ts @ CHR '']'' # R"
      and src: "CHR '' '' \<notin> set src" and cid: "CHR '' '' \<notin> set cid"
      and uid: "CHR '' '' \<notin> set uid" and ts: "CHR '']'' \<notin> set ts"
      and len: "length line < npos"
  shows "parseClientFields line =
           Inr (Connection_init\<lparr>clientSource := src, clientId := cid, userId := uid,
                                 timestamp := ts\<rparr>,
                length src + 1 + length cid + 1 + length uid + 1 + 1 + length ts)"
proof -
  let ?p1 = "length src + 1"
  let ?p2 = "?p1 + length cid + 1"
  let ?p3 = "?p2 + length uid + 1"
  let ?p4 = "?p3 + 1"
  have small: "?p4 + length ts < 18446744073709551616"
    using len unfolding line by (simp add: npos_def)
  have o1: "str_find line CHR '' '' 0 = length src"
    using str_find_hit [where Pre = "[]" and A = src and line = line and c = "CHR '' ''"
                         and R = "cid @ CHR '' '' # uid @ CHR '' '' # CHR ''['' # ts @ CHR '']'' # R"]
      line src len by simp
  have s1: "substr line 0 (length src) = Inr src"
    by (rule substr_hit [where Pre = "[]"
                          and R = "CHR '' '' # cid @ CHR '' '' # uid @ CHR '' '' # CHR ''['' # ts @ CHR '']'' # R"])
       (simp_all add: line)
  have a1: "sz_add (length src) 1 = ?p1"
    using small by (intro sz_add_small) simp
  have o2: "str_find line CHR '' '' ?p1 = ?p1 + length cid"
    using str_find_hit [where Pre = "src @ [CHR '' '']" and A = cid and line = line
                         and c = "CHR '' ''" and pos = ?p1
                         and R = "uid @ CHR '' '' # CHR ''['' # ts @ CHR '']'' # R"]
      line cid len by simp
  have d2: "sz_sub (?p1 + length cid) ?p1 = length cid"
    using small by (subst sz_sub_small) (simp_all add: npos_def)
  have s2: "substr line ?p1 (length cid) = Inr cid"
    by (rule substr_hit [where Pre = "src @ [CHR '' '']"
                          and R = "CHR '' '' # uid @ CHR '' '' # CHR ''['' # ts @ CHR '']'' # R"])
       (simp_all add: line)
  have a2: "sz_add (?p1 + length cid) 1 = ?p2"
    using small by (intro sz_add_small) simp
  have o3: "str_find line CHR '' '' ?p2 = ?p2 + length uid"
    using str_find_hit [where Pre = "src @ CHR '' '' # cid @ [CHR '' '']" and A = uid
                         and line = line and c = "CHR '' ''" and pos = ?p2
                         and R = "CHR ''['' # ts @ CHR '']'' # R"]
      line uid len by simp
  have d3: "sz_sub (?p2 + length uid) ?p2 = length uid"
    using small by (subst sz_sub_small) (simp_all add: npos_def)
  have s3: "substr line ?p2 (length uid) = Inr uid"
    by (rule substr_hit [where Pre = "src @ CHR '' '' # cid @ [CHR '' '']"
                          and R = "CHR '' '' # CHR ''['' # ts @ CHR '']'' # R"])
       (simp_all add: line)
  have a3: "sz_add (?p2 + length uid) 1 = ?p3"
    using small by (intro sz_add_small) simp
  have o4: "str_find line CHR ''['' ?p3 = ?p3"
    using str_find_hit [where Pre = "src @ CHR '' '' # cid @ CHR '' '' # uid @ [CHR '' '']"
                         and A = "[]" and line = line and c = "CHR ''[''" and pos = ?p3
                         and R = "ts @ CHR '']'' # R"]
      line len by simp
  have a4: "sz_add ?p3 1 = ?p4"
    using small by (intro sz_add_small) simp
  have o5: "str_find line CHR '']'' ?p4 = ?p4 + length ts"
    using str_find_hit [where Pre = "src @ CHR '' '' # cid @ CHR '' '' # uid @ [CHR '' '', CHR ''['']"
                         and A = ts and line = line and c = "CHR '']''" and pos = ?p4
                         and R = R]
      line ts len by simp
  have d5: "sz_sub (?p4 + length ts) ?p4 = length ts"
    using small by (subst sz_sub_small) (simp_all add: npos_def)
  have s5: "substr line ?p4 (length ts) = Inr ts"
    by (rule substr_hit [where Pre = "src @ CHR '' '' # cid @ CHR '' '' # uid @ [CHR '' '', CHR ''['']"
                          and R = "CHR '']'' # R"])
       (simp_all add: line)
  show ?thesis
    by (simp only: parseClientFields_def Let_def o1 s1 a1 o2 d2 s2 a2 o3 d3 s3 a3 o4 a4 o5 d5 s5
          sum.case)
qed
lemma splitString_three_tokens:
  assumes str: "str = m @ CHR '' '' # u @ CHR '' '' # v"
      and m: "m \<noteq> []" "\<forall>x\<in>set m. x \<notin> set d"
      and u: "\<forall>x\<in>set u. x \<notin> set d" and v: "\<forall>x\<in>set v. x \<notin> set d"
      and d: "CHR '' '' \<in> set d"
      and len: "length str < npos"
  shows "splitString str d = Inr [m, u, v]"
proof -
  let ?p1 = "length m + 1"
  let ?p2 = "?p1 + length u"
  let ?p3 = "?p2 + 1"
  have small: "?p3 + length v < 18446744073709551615"
    using len unfolding str by (simp add: npos_def)
  obtain h t where ht: "m = h # t" using m(1) by (cases m) auto
  have f0: "find_first_not_of str d 0 = 0"
    unfolding find_first_not_of_def
    using find_if_from_hit [where Pre = "[]" and A = "[]" and c = h and line = str and pos = 0
                             and P = "\<lambda>x. x \<notin> set d" and R = "t @ CHR '' '' # u @ CHR '' '' # v"]
      m(2) len by (simp add: str ht)
  have f1: "find_first_of str d 0 = length m"
    unfolding find_first_of_def
    using find_if_from_hit [where Pre = "[]" and A = m and c = "CHR '' ''" and line = str
                             and pos = 0 and P = "\<lambda>x. x \<in> set d" and R = "u @ CHR '' '' # v"]
      m(2) d len by (simp add: str)
  have c1: "(npos = length m) = False"
    using small by (simp add: npos_def)
  have d1: "sz_sub (length m) 0 = length m"
    using small by (subst sz_sub_small) (simp_all add: npos_def)
  have s1: "substr str 0 (length m) = Inr m"
    by (rule substr_hit [where Pre = "[]" and R = "CHR '' '' # u @ CHR '' '' # v"])
       (simp_all add: str)
  have a1: "sz_add (length m) 1 = ?p1"
    using small by (intro sz_add_small) simp
  have f2: "find_first_of str d ?p1 = ?p2"
    unfolding find_first_of_def
    using find_if_from_hit [where Pre = "m @ [CHR '' '']" and A = u and c = "CHR '' ''"
                             and line = str and pos = ?p1 and P = "\<lambda>x. x \<in> set d"
                             and R = v]
      u d len by (simp add: str)
  have i1: "splitLoop str d 0 (length m) [] = splitLoop str d ?p1 ?p2 [m]"
    by (subst splitLoop.simps) (simp only: c1 d1 s1 a1 f2 simp_thms if_True if_False sum.case Let_def append_Nil)
  have c2: "(npos = ?p2) = False"
    using small by (simp add: npos_def)
  have d2: "sz_sub ?p2 ?p1 = length u"
    using small by (subst sz_sub_small) (simp_all add: npos_def)
  have s2: "substr str ?p1 (length u) = Inr u"
    by (rule substr_hit [where Pre = "m @ [CHR '' '']" and R = "CHR '' '' # v"])
       (simp_all add: str)
  have a2: "sz_add ?p2 1 = ?p3"
    using small by (intro sz_add_small) simp
  have f3: "find_first_of str d ?p3 = npos"
    unfolding find_first_of_def
    using find_if_from_miss [where Pre = "m @ CHR '' '' # u @ [CHR '' '']" and A = v
                              and line = str and pos = ?p3 and P = "\<lambda>x. x \<in> set d"]
      v by (simp add: str)
  have i2: "splitLoop str d ?p1 ?p2 [m] = splitLoop str d ?p3 npos [m, u]"
    by (subst splitLoop.simps)
       (simp only: c2 d2 s2 a2 f3 simp_thms if_True if_False sum.case Let_def append.simps)
  have c3: "(npos = ?p3) = False"
    using small by (simp add: npos_def)
  have d3: "sz_sub npos ?p3 = npos - ?p3"
    using small by (subst sz_sub_small) (simp_all add: npos_def)
  have s3: "substr str ?p3 (npos - ?p3) = Inr v"
    using small
    by (intro substr_rest [where Pre = "m @ CHR '' '' # u @ [CHR '' '']"])
       (simp_all add: str npos_def)
  have f4: "find_first_of str d npos = npos"
    by (simp add: find_first_of_def find_if_from_npos)
  have i3: "splitLoop str d ?p3 npos [m, u] = splitLoop str d npos npos [m, u, v]"
    by (subst splitLoop.simps)
       (simp only: c3 d3 s3 f4 simp_thms if_True if_False sum.case Let_def append.simps)
  have i4: "splitLoop str d npos npos [m, u, v] = Inr [m, u, v]"
    by (subst splitLoop.simps) simp
  show ?thesis
    by (simp only: splitString_def Let_def f0 f1 i1 i2 i3 i4)
qed
lemma parseRequestLine_layout:
  assumes line: "line = Pre @ CHR '']'' # CHR '' '' # CHR 0x22 # m @ CHR '' '' # u @ CHR '' '' # v
                          @ CHR 0x22 # R"
      and m: "m \<noteq> []" "\<forall>x\<in>set m. x \<notin> set [CHR '' '', CHR 0x09, CHR 0x0A, CHR 0x0D, CHR 0x22]"
      and u: "\<forall>x\<in>set u. x \<notin> set [CHR '' '', CHR 0x09, CHR 0x0A, CHR 0x0D, CHR 0x22]"
      and v: "\<forall>x\<in>set v. x \<notin> set [CHR '' '', CHR 0x09, CHR 0x0A, CHR 0x0D, CHR 0x22]"
      and len: "length line < npos"
  shows "parseRequestLine line (c, length Pre) =
           Inr (c\<lparr>httpRequestMethod := m, requestUri := u, httpVersion := v\<rparr>,
                length Pre + 3 + length (m @ CHR '' '' # u @ CHR '' '' # v))"
proof -
  let ?req = "m @ CHR '' '' # u @ CHR '' '' # v"
  let ?p0 = "length Pre"
  let ?p3 = "?p0 + 3"
  have small: "?p3 + length ?req < 18446744073709551615"
    using len unfolding line by (simp add: npos_def)
  obtain h t where ht: "m = h # t" using m(1) by (cases m) auto
  have a0: "sz_add ?p0 1 = ?p0 + 1"
    using small by (intro sz_add_small) simp
  have q1: "str_find line CHR 0x22 (?p0 + 1) = ?p0 + 2"
    using str_find_hit [where Pre = "Pre @ [CHR '']'']" and A = "[CHR '' '']" and c = "CHR 0x22"
                         and line = line and pos = "?p0 + 1" and R = "?req @ CHR 0x22 # R"]
      len by (simp add: line)
  have a1: "sz_add (?p0 + 2) 1 = ?p3"
    using small by (simp add: sz_add_def)
  have a2: "sz_add ?p3 1 = ?p3 + 1"
    using small by (intro sz_add_small) simp
  have qm: "CHR 0x22 \<notin> set m" using m(2) by fastforce
  have qu: "CHR 0x22 \<notin> set u" using u by fastforce
  have qv: "CHR 0x22 \<notin> set v" using v by fastforce
  have nq: "CHR 0x22 \<notin> set (t @ CHR '' '' # u @ CHR '' '' # v)"
    using qm qu qv unfolding ht by simp
  have q2: "str_find line CHR 0x22 (?p3 + 1) = ?p3 + length ?req"
    using str_find_hit [where Pre = "Pre @ [CHR '']'', CHR '' '', CHR 0x22, h]"
                         and A = "t @ CHR '' '' # u @ CHR '' '' # v" and c = "CHR 0x22"
                         and line = line and pos = "?p3 + 1" and R = R]
      nq len by (simp add: line ht)
  have rq: "requestQuotes line ?p0 = (?p3, ?p3 + length ?req)"
    by (simp only: requestQuotes_def Let_def a0 q1 a1 a2 q2)
  have d: "sz_sub (?p3 + length ?req) ?p3 = length ?req"
    using small by (subst sz_sub_small) (simp_all add: npos_def)
  have s: "substr line ?p3 (length ?req) = Inr ?req"
    by (rule substr_hit [where Pre = "Pre @ [CHR '']'', CHR '' '', CHR 0x22]" and R = "CHR 0x22 # R"])
       (simp_all add: line)
  have dm: "\<forall>x\<in>set m. x \<notin> set [CHR '' '', CHR 0x09, CHR 0x0A, CHR 0x0D]"
    using m(2) by fastforce
  have du: "\<forall>x\<in>set u. x \<notin> set [CHR '' '', CHR 0x09, CHR 0x0A, CHR 0x0D]"
    using u by fastforce
  have dv: "\<forall>x\<in>set v. x \<notin> set [CHR '' '', CHR 0x09, CHR 0x0A, CHR 0x0D]"
    using v by fastforce
  have lr: "length ?req < npos" using small by (simp add: npos_def)
  have sp: "splitString ?req [CHR '' '', CHR 0x09, CHR 0x0A, CHR 0x0D] = Inr [m, u, v]"
    by (rule splitString_three_tokens [OF refl m(1) dm du dv _ lr]) simp
  have t: "vec_at [m, u, v] 0 = Inr m" "vec_at [m, u, v] 1 = Inr u" "vec_at [m, u, v] 2 = Inr v"
    by (simp_all add: vec_at_def)
  have tk: "requestTokens line ?p0 = Inr [m, u, v]"
    by (simp only: requestTokens_def Let_def prod.case rq d s sp sum.case)
  show ?thesis
    by (simp only: parseRequestLine_def Let_def prod.case tk rq t sum.case snd_conv)
qed

lemma parseStatusAndSize_layout:
  assumes line: "line = Pre @ CHR 0x22 # CHR '' '' # st @ CHR '' '' # sz"
      and st: "CHR '' '' \<notin> set st"
      and len: "length line < npos"
  shows "parseStatusAndSize line (c, length Pre) =
           Inr (c\<lparr>httpStatusCode := atoi (CHR '' '' # st), responseSize := atoi sz\<rparr>)"
proof -
  let ?p0 = "length Pre"
  let ?p1 = "?p0 + 1"
  let ?p2 = "?p1 + 1 + length st"
  have small: "?p2 + 1 + length sz < 18446744073709551615"
    using len unfolding line by (simp add: npos_def)
  have o1: "str_find line CHR '' '' ?p0 = ?p1"
    using str_find_hit [where Pre = Pre and A = "[CHR 0x22]" and c = "CHR '' ''"
                         and line = line and pos = ?p0 and R = "st @ CHR '' '' # sz"]
      len by (simp add: line)
  have a1: "sz_add ?p1 1 = ?p1 + 1"
    using small by (intro sz_add_small) simp
  have o2: "str_find line CHR '' '' (?p1 + 1) = ?p2"
    using str_find_hit [where Pre = "Pre @ [CHR 0x22, CHR '' '']" and A = st and c = "CHR '' ''"
                         and line = line and pos = "?p1 + 1" and R = sz]
      st len by (simp add: line)
  have d: "sz_sub ?p2 ?p1 = length (CHR '' '' # st)"
    using small by (subst sz_sub_small) (simp_all add: npos_def)
  have s1: "substr line ?p1 (length (CHR '' '' # st)) = Inr (CHR '' '' # st)"
    by (rule substr_hit [where Pre = "Pre @ [CHR 0x22]" and R = "CHR '' '' # sz"])
       (simp_all add: line)
  have a2: "sz_add ?p2 1 = ?p2 + 1"
    using small by (intro sz_add_small) simp
  have s2: "substr line (?p2 + 1) npos = Inr sz"
    using small
    by (intro substr_rest [where Pre = "Pre @ CHR 0x22 # CHR '' '' # st @ [CHR '' '']"])
       (simp_all add: line npos_def)
  show ?thesis
    by (simp only: parseStatusAndSize_def Let_def prod.case o1 a1 o2 d s1 a2 s2 sum.case)
qed
lemma parse_layout:
  assumes f: "spec_fields (src, cid, uid) ts (m, u, v) st"
      and len: "length (spec_logLine (src, cid, uid) ts (m, u, v) st sz) < npos"
  shows "parseConnectionFromLine (spec_logLine (src, cid, uid) ts (m, u, v) st sz) =
           Inr \<lparr>clientSource = src, clientId = cid, userId = uid, timestamp = ts,
                httpRequestMethod = m, requestUri = u, httpVersion = v,
                httpStatusCode = atoi (CHR '' '' # st), responseSize = atoi sz\<rparr>"
proof -
  let ?line = "spec_logLine (src, cid, uid) ts (m, u, v) st sz"
  let ?req = "m @ CHR '' '' # u @ CHR '' '' # v"
  let ?pre1 = "src @ CHR '' '' # cid @ CHR '' '' # uid @ CHR '' '' # CHR ''['' # ts"
  let ?pre2 = "?pre1 @ CHR '']'' # CHR '' '' # CHR 0x22 # ?req"
  let ?c1 = "Connection_init\<lparr>clientSource := src, clientId := cid, userId := uid,
                               timestamp := ts\<rparr>"
  let ?c2 = "?c1\<lparr>httpRequestMethod := m, requestUri := u, httpVersion := v\<rparr>"
  from f have src: "CHR '' '' \<notin> set src" and cid: "CHR '' '' \<notin> set cid"
    and uid: "CHR '' '' \<notin> set uid" and ts: "CHR '']'' \<notin> set ts" and m: "m \<noteq> []"
    and st: "CHR '' '' \<notin> set st"
    and rm: "\<forall>x\<in>set m. x \<notin> set [CHR '' '', CHR 0x09, CHR 0x0A, CHR 0x0D, CHR 0x22]"
    and ru: "\<forall>x\<in>set u. x \<notin> set [CHR '' '', CHR 0x09, CHR 0x0A, CHR 0x0D, CHR 0x22]"
    and rv: "\<forall>x\<in>set v. x \<notin> set [CHR '' '', CHR 0x09, CHR 0x0A, CHR 0x0D, CHR 0x22]"
    by (simp_all add: spec_requestPart_def list_all_iff)
  have l1: "?line = ?pre1 @ CHR '']'' # (CHR '' '' # CHR 0x22 # ?req @ CHR 0x22 # CHR '' '' # st @ CHR '' '' # sz)"
    by (simp add: spec_logLine.simps)
  have l2: "?line = ?pre1 @ CHR '']'' # CHR '' '' # CHR 0x22 # m @ CHR '' '' # u @ CHR '' '' # v
                      @ CHR 0x22 # (CHR '' '' # st @ CHR '' '' # sz)"
    by (simp add: spec_logLine.simps)
  have l3: "?line = ?pre2 @ CHR 0x22 # CHR '' '' # st @ CHR '' '' # sz"
    by (simp add: spec_logLine.simps)
  have p1: "length src + 1 + length cid + 1 + length uid + 1 + 1 + length ts = length ?pre1"
    by simp
  have p2: "length ?pre1 + 3 + length ?req = length ?pre2"
    by simp
  have s1: "parseClientFields ?line = Inr (?c1, length ?pre1)"
    using parseClientFields_layout [where R = "CHR '' '' # CHR 0x22 # ?req @ CHR 0x22 # CHR '' '' # st @ CHR '' '' # sz",
                                     OF _ src cid uid ts len]
    unfolding p1 by (simp add: spec_logLine.simps)
  have s2: "parseRequestLine ?line (?c1, length ?pre1) = Inr (?c2, length ?pre2)"
    using parseRequestLine_layout [OF l2 m rm ru rv len, of ?c1] unfolding p2 .
  have s3: "parseStatusAndSize ?line (?c2, length ?pre2)
              = Inr (?c2\<lparr>httpStatusCode := atoi (CHR '' '' # st), responseSize := atoi sz\<rparr>)"
    by (rule parseStatusAndSize_layout [OF l3 st len])
  show ?thesis
    by (simp only: parseConnectionFromLine_def s1 s2 s3 sum.case) (simp add: Connection_init_def)
qed

section \<open>The values of a record\<close>

lemma atoi_range: "int_range (atoi s)"
proof -
  have "0 \<le> (strtol s + 2147483648) mod 4294967296"
    and "(strtol s + 2147483648) mod 4294967296 < 4294967296"
    by simp_all
  then show ?thesis by (simp add: atoi_def long_to_int_def int_range_def)
qed

lemma parseStatusAndSize_range:
  assumes "parseStatusAndSize line st = Inr c"
  shows "int_range (httpStatusCode c) \<and> int_range (responseSize c)"
proof -
  from assms obtain c0 t1 t2 where
    "c = c0\<lparr>httpStatusCode := atoi t1, responseSize := atoi t2\<rparr>"
    by (auto simp: parseStatusAndSize_def Let_def split: sum.splits prod.splits)
  then show ?thesis by (simp add: atoi_range)
qed

lemma atoi_dash: "atoi ''-'' = 0"
  by (simp add: atoi_ops)

text \<open>
  Claim C2, as amended. Every record that \<open>parseConnectionFromLine\<close> returns has its
  seven strings set and a status code and a response size in the range of \<open>int\<close>, the
  results of \<open>atoi\<close>; the response size may be negative. No line of the fixed layout is
  rejected for its status or its size: whatever the two texts are, the parser returns the
  record of the fields of the line, with what \<open>atoi\<close> reads from the status and from the
  size. For the size \<open>-\<close> that is 0.
\<close>

theorem parsed_record_values:
  "(parseConnectionFromLine line = Inr c \<longrightarrow>
      int_range (httpStatusCode c) \<and> int_range (responseSize c))
   \<and> (spec_fields (src, cid, uid) ts (m, u, v) st
        \<and> length (spec_logLine (src, cid, uid) ts (m, u, v) st sz) < npos \<longrightarrow>
      parseConnectionFromLine (spec_logLine (src, cid, uid) ts (m, u, v) st sz) =
        Inr \<lparr>clientSource = src, clientId = cid, userId = uid, timestamp = ts,
             httpRequestMethod = m, requestUri = u, httpVersion = v,
             httpStatusCode = atoi (CHR '' '' # st), responseSize = atoi sz\<rparr>)
   \<and> atoi ''-'' = 0"
proof (intro conjI impI)
  assume "parseConnectionFromLine line = Inr c"
  then obtain st' where "parseStatusAndSize line st' = Inr c"
    by (auto simp: parseConnectionFromLine_def split: sum.splits)
  then have r: "int_range (httpStatusCode c) \<and> int_range (responseSize c)"
    by (rule parseStatusAndSize_range)
  from r show "int_range (httpStatusCode c)" ..
  from r show "int_range (responseSize c)" ..
next
  assume "spec_fields (src, cid, uid) ts (m, u, v) st
            \<and> length (spec_logLine (src, cid, uid) ts (m, u, v) st sz) < npos"
  then show "parseConnectionFromLine (spec_logLine (src, cid, uid) ts (m, u, v) st sz) =
        Inr \<lparr>clientSource = src, clientId = cid, userId = uid, timestamp = ts,
             httpRequestMethod = m, requestUri = u, httpVersion = v,
             httpStatusCode = atoi (CHR '' '' # st), responseSize = atoi sz\<rparr>"
    using parse_layout by blast
next
  show "atoi ''-'' = 0" by (rule atoi_dash)
qed

lemma line_dash_layout:
  "spec_logLine (''10.0.0.7'', ''-'', ''-'') ''11/Oct/2023:08:01:07 -0700''
     (''HEAD'', ''/ping'', ''HTTP/1.1'') ''204'' ''-'' = line_dash"
  by (simp add: line_dash_def)

lemma line_big_layout:
  "spec_logLine (''10.0.0.7'', ''-'', ''-'') ''11/Oct/2023:08:01:11 -0700''
     (''GET'', ''/video'', ''HTTP/1.1'') ''200'' ''4294967301'' = line_big"
  by (simp add: line_big_def)

theorem parsed_record_values_witness:
  "spec_fields (''10.0.0.7'', ''-'', ''-'') ''11/Oct/2023:08:01:07 -0700''
     (''HEAD'', ''/ping'', ''HTTP/1.1'') ''204''
   \<and> length line_dash < npos
   \<and> parseConnectionFromLine line_dash = Inr rec_dash
   \<and> int_range (httpStatusCode rec_dash) \<and> int_range (responseSize rec_dash)
   \<and> spec_fields (''10.0.0.7'', ''-'', ''-'') ''11/Oct/2023:08:01:11 -0700''
     (''GET'', ''/video'', ''HTTP/1.1'') ''200''
   \<and> length line_big < npos
   \<and> parseConnectionFromLine line_big = Inr rec_big
   \<and> int_range (httpStatusCode rec_big) \<and> int_range (responseSize rec_big)"
proof -
  have f: "spec_fields (''10.0.0.7'', ''-'', ''-'') ''11/Oct/2023:08:01:07 -0700''
             (''HEAD'', ''/ping'', ''HTTP/1.1'') ''204''"
    by (simp add: spec_requestPart_def)
  have l: "length line_dash < npos"
    by (simp add: line_dash_def npos_def)
  have a: "atoi '' 204'' = 204" "atoi ''-'' = 0"
    by (simp_all add: atoi_ops)
  note t = parsed_record_values [where src = "''10.0.0.7''" and cid = "''-''" and uid = "''-''"
      and ts = "''11/Oct/2023:08:01:07 -0700''" and m = "''HEAD''" and u = "''/ping''"
      and v = "''HTTP/1.1''" and st = "''204''" and sz = "''-''" and line = line_dash
      and c = rec_dash, unfolded line_dash_layout]
  from t f l have p: "parseConnectionFromLine line_dash = Inr rec_dash"
    by (simp add: rec_dash_def a)
  with t have r: "int_range (httpStatusCode rec_dash)" "int_range (responseSize rec_dash)"
    by blast+
  have f': "spec_fields (''10.0.0.7'', ''-'', ''-'') ''11/Oct/2023:08:01:11 -0700''
             (''GET'', ''/video'', ''HTTP/1.1'') ''200''"
    by (simp add: spec_requestPart_def)
  have l': "length line_big < npos"
    by (simp add: line_big_def npos_def)
  have a': "atoi '' 200'' = 200" "atoi ''4294967301'' = 5"
    by (simp_all add: atoi_ops)
  note t' = parsed_record_values [where src = "''10.0.0.7''" and cid = "''-''" and uid = "''-''"
      and ts = "''11/Oct/2023:08:01:11 -0700''" and m = "''GET''" and u = "''/video''"
      and v = "''HTTP/1.1''" and st = "''200''" and sz = "''4294967301''" and line = line_big
      and c = rec_big, unfolded line_big_layout]
  from t' f' l' have p': "parseConnectionFromLine line_big = Inr rec_big"
    by (simp add: rec_big_def a')
  with t' have r': "int_range (httpStatusCode rec_big)" "int_range (responseSize rec_big)"
    by blast+
  show ?thesis by (intro conjI f l p r f' l' p' r')
qed

text \<open>
  Claim C2 as stated fails: the size field \<open>-5\<close> is read by \<open>atoi\<close> as it stands, and the
  record that the parser returns has a negative response size.
\<close>

theorem negative_size_counterexample:
  "parseConnectionFromLine line_negative = Inr rec_negative
   \<and> responseSize rec_negative = - 5"
  by (simp add: line_negative_def rec_negative_def parse_ops string_ops atoi_ops)

end
